theory Spec2Isabelle
  imports Main "HOL-Library.AList"
begin

section \<open>Values, errors and BigNumber arithmetic\<close>

text \<open>
  The market class of \<^verbatim>\<open>UniswappyV2EthPair.ts\<close> computes on ethers (v5) \<^verbatim>\<open>BigNumber\<close>
  values: signed integers of arbitrary precision, so \<open>mul\<close>, \<open>add\<close> and \<open>sub\<close> are the
  operations of \<open>int\<close>. \<^verbatim>\<open>BigNumber.div\<close> throws on a zero divisor and otherwise
  truncates the quotient toward zero.

  A property read of a JavaScript object yields \<^verbatim>\<open>undefined\<close>, a stored BigNumber, or a
  member inherited from \<^verbatim>\<open>Object.prototype\<close>.
\<close>

datatype jsval = Undefined | Big int | Inherited

datatype error =
    DivisionByZero \<comment> \<open>ethers: \<^verbatim>\<open>division-by-zero\<close> fault of \<^verbatim>\<open>BigNumber.div\<close>\<close>
  | BadToken \<comment> \<open>\<^verbatim>\<open>new Error("bad token")\<close>\<close>
  | BadTokenInputAddress \<comment> \<open>\<^verbatim>\<open>new Error("Bad token input address")\<close>\<close>
  | InvalidBigNumber \<comment> \<open>ethers: \<^verbatim>\<open>invalid BigNumber value\<close> of \<^verbatim>\<open>BigNumber.from\<close>\<close>
  | TypeError \<comment> \<open>a method call or index on \<^verbatim>\<open>undefined\<close> or on a value without that method\<close>
  | EncoderError \<comment> \<open>any rejection of ethers' \<^verbatim>\<open>populateTransaction.swap\<close>\<close>
  | HI \<comment> \<open>\<^verbatim>\<open>new Error("HI")\<close>\<close>

definition tdiv :: "int \<Rightarrow> int \<Rightarrow> int" where
  "tdiv a b = sgn a * sgn b * (\<bar>a\<bar> div \<bar>b\<bar>)"

definition bn_div :: "int \<Rightarrow> int \<Rightarrow> error + int" where
  "bn_div a b = (if b = 0 then Inl DivisionByZero else Inr (tdiv a b))"

definition ETHER :: int where
  "ETHER = 10 ^ 18"

section \<open>Swap arithmetic\<close>

definition getAmountIn :: "int \<Rightarrow> int \<Rightarrow> int \<Rightarrow> error + int" where
  "getAmountIn reserveIn reserveOut amountOut =
     (let numerator = reserveIn * amountOut * 1000;
          denominator = (reserveOut - amountOut) * 997
      in case bn_div numerator denominator of
           Inl e \<Rightarrow> Inl e
         | Inr q \<Rightarrow> Inr (q + 1))"

definition getAmountOut :: "int \<Rightarrow> int \<Rightarrow> int \<Rightarrow> error + int" where
  "getAmountOut reserveIn reserveOut amountIn =
     (let amountInWithFee = amountIn * 997;
          numerator = amountInWithFee * reserveOut;
          denominator = reserveIn * 1000 + amountInWithFee
      in bn_div numerator denominator)"

section \<open>Objects keyed by token address\<close>

text \<open>
  \<^verbatim>\<open>TokenBalances\<close> is a plain JavaScript object from token address to balance. Its own
  properties are kept as an association list in insertion order; a stored value may be
  \<^verbatim>\<open>undefined\<close>. Every plain object also inherits the members of \<^verbatim>\<open>Object.prototype\<close>,
  which the operator \<^verbatim>\<open>in\<close> and a property read both see.
\<close>

type_synonym TokenBalances = "(string \<times> jsval) list"

definition Object_prototype_names :: "string list" where
  "Object_prototype_names =
     [''constructor'', ''hasOwnProperty'', ''isPrototypeOf'', ''propertyIsEnumerable'',
      ''toLocaleString'', ''toString'', ''valueOf'', ''__proto__'',
      ''__defineGetter__'', ''__defineSetter__'', ''__lookupGetter__'', ''__lookupSetter__'']"

definition own_keys :: "TokenBalances \<Rightarrow> string set" where
  "own_keys obj = set (map fst obj)"

definition js_in :: "string \<Rightarrow> TokenBalances \<Rightarrow> bool" where
  \<comment> \<open>\<^verbatim>\<open>key in obj\<close>\<close>
  "js_in k obj = (k \<in> own_keys obj \<or> k \<in> set Object_prototype_names)"

definition js_get :: "TokenBalances \<Rightarrow> string \<Rightarrow> jsval" where
  \<comment> \<open>\<^verbatim>\<open>obj[key]\<close>\<close>
  "js_get obj k =
     (case map_of obj k of
        Some v \<Rightarrow> v
      | None \<Rightarrow> if k \<in> set Object_prototype_names then Inherited else Undefined)"

definition js_idx :: "int list \<Rightarrow> nat \<Rightarrow> jsval" where
  \<comment> \<open>\<^verbatim>\<open>arr[i]\<close> on an array of BigNumbers: \<^verbatim>\<open>undefined\<close> past the end\<close>
  "js_idx arr i = (if i < length arr then Big (arr ! i) else Undefined)"

definition str_idx :: "string list \<Rightarrow> nat \<Rightarrow> string option" where
  \<comment> \<open>\<^verbatim>\<open>arr[i]\<close> on an array of strings: \<^verbatim>\<open>undefined\<close> (\<open>None\<close>) past the end\<close>
  "str_idx arr i = (if i < length arr then Some (arr ! i) else None)"

fun key_of :: "string option \<Rightarrow> string" where
  \<comment> \<open>a value used as a property key: \<^verbatim>\<open>undefined\<close> becomes the string \<^verbatim>\<open>"undefined"\<close>\<close>
  "key_of None = ''undefined''"
| "key_of (Some s) = s"

fun zipObject_from :: "string list \<Rightarrow> jsval list \<Rightarrow> TokenBalances \<Rightarrow> TokenBalances" where
  "zipObject_from [] vals result = result"
| "zipObject_from (p # props) vals result =
     zipObject_from props (tl vals)
       (AList.update p (case vals of [] \<Rightarrow> Undefined | v # _ \<Rightarrow> v) result)"

definition zipObject :: "string list \<Rightarrow> jsval list \<Rightarrow> TokenBalances" where
  \<comment> \<open>lodash \<^verbatim>\<open>_.zipObject(props, values)\<close>: one own property per entry of \<open>props\<close>, a later
      duplicate overwriting, a missing value being \<^verbatim>\<open>undefined\<close>\<close>
  "zipObject props vals = zipObject_from props vals []"

definition isEqual :: "TokenBalances \<Rightarrow> TokenBalances \<Rightarrow> bool" where
  \<comment> \<open>lodash \<^verbatim>\<open>_.isEqual\<close> on two such objects: the same own keys with equal values\<close>
  "isEqual a b =
     (own_keys a = own_keys b \<and> (\<forall>k \<in> set (map fst a). map_of a k = map_of b k))"

fun groupBy_from :: "('a \<Rightarrow> string) \<Rightarrow> 'a list \<Rightarrow> (string \<times> 'a list) list \<Rightarrow> (string \<times> 'a list) list" where
  "groupBy_from f [] result = result"
| "groupBy_from f (x # xs) result =
     groupBy_from f xs
       (case map_of result (f x) of
          Some g \<Rightarrow> AList.update (f x) (g @ [x]) result
        | None \<Rightarrow> result @ [(f x, [x])])"

definition groupBy :: "('a \<Rightarrow> string) \<Rightarrow> 'a list \<Rightarrow> (string \<times> 'a list) list" where
  \<comment> \<open>lodash \<^verbatim>\<open>_.groupBy\<close>: keys in order of first appearance, members in input order.
      (Property order is insertion order for keys that are not array indices, as
      addresses are.)\<close>
  "groupBy f xs = groupBy_from f xs []"

section \<open>The market\<close>

text \<open>
  Modelled from the spec: the base class \<^verbatim>\<open>EthMarket\<close> is not among the sources. Its
  fields \<open>marketAddress\<close>, \<open>tokens\<close> and \<open>protocol\<close> are the arguments the constructor
  hands to it, read back unchanged by \<^verbatim>\<open>this.marketAddress\<close>, \<^verbatim>\<open>this.tokens\<close> and
  \<^verbatim>\<open>this._tokens\<close> (the spec: identity and constituent assets are fixed at construction).
  \<open>tokenBalances\<close> is the private \<^verbatim>\<open>_tokenBalances\<close> of the class itself. The quote asset
  \<^verbatim>\<open>WETH_ADDRESS\<close> is a constant of another module and is a parameter \<open>weth\<close> here.
\<close>

record Market =
  marketAddress :: string
  tokens :: "string list"
  protocol :: string
  tokenBalances :: TokenBalances

definition UniswappyV2EthPair :: "string \<Rightarrow> string list \<Rightarrow> string \<Rightarrow> Market" where
  \<comment> \<open>the constructor\<close>
  "UniswappyV2EthPair addr toks proto =
     \<lparr>marketAddress = addr, tokens = toks, protocol = proto,
      tokenBalances = zipObject toks [Big 0, Big 0]\<rparr>"

definition receiveDirectly :: "Market \<Rightarrow> string \<Rightarrow> bool" where
  "receiveDirectly m tokenAddress = js_in tokenAddress (tokenBalances m)"

definition getBalance :: "Market \<Rightarrow> string \<Rightarrow> error + jsval" where
  "getBalance m tokenAddress =
     (let balance = js_get (tokenBalances m) tokenAddress
      in if balance = Undefined then Inl BadToken else Inr balance)"

definition setReservesViaMatchingArray :: "Market \<Rightarrow> string list \<Rightarrow> jsval list \<Rightarrow> Market" where
  "setReservesViaMatchingArray m toks balances =
     (let tb = zipObject toks balances
      in if \<not> isEqual (tokenBalances m) tb then m\<lparr>tokenBalances := tb\<rparr> else m)"

definition setReservesViaOrderedBalances :: "Market \<Rightarrow> jsval list \<Rightarrow> Market" where
  "setReservesViaOrderedBalances m balances = setReservesViaMatchingArray m (tokens m) balances"

text \<open>
  \<open>getAmountIn\<close> and \<open>getAmountOut\<close> are typed on BigNumbers. When a looked-up reserve is
  not one, \<open>getAmountIn\<close> stops at \<^verbatim>\<open>reserveIn.mul\<close> or \<^verbatim>\<open>reserveOut.sub\<close> with a
  TypeError; \<open>getAmountOut\<close> first converts \<open>reserveOut\<close> as the argument of \<^verbatim>\<open>mul\<close>
  (an invalid-BigNumber error) and then calls \<^verbatim>\<open>reserveIn.mul\<close> (a TypeError).
\<close>

definition getTokensIn :: "Market \<Rightarrow> string \<Rightarrow> string \<Rightarrow> int \<Rightarrow> error + int" where
  "getTokensIn m tokenIn tokenOut amountOut =
     (let reserveIn = js_get (tokenBalances m) tokenIn;
          reserveOut = js_get (tokenBalances m) tokenOut
      in case reserveIn of
           Big ri \<Rightarrow> (case reserveOut of Big ro \<Rightarrow> getAmountIn ri ro amountOut | _ \<Rightarrow> Inl TypeError)
         | _ \<Rightarrow> Inl TypeError)"

definition getTokensOut :: "Market \<Rightarrow> string \<Rightarrow> string \<Rightarrow> int \<Rightarrow> error + int" where
  "getTokensOut m tokenIn tokenOut amountIn =
     (let reserveIn = js_get (tokenBalances m) tokenIn;
          reserveOut = js_get (tokenBalances m) tokenOut
      in case reserveOut of
           Big ro \<Rightarrow> (case reserveIn of Big ri \<Rightarrow> getAmountOut ri ro amountIn | _ \<Rightarrow> Inl TypeError)
         | _ \<Rightarrow> Inl InvalidBigNumber)"




section \<open>Reserve synchronization\<close>

text \<open>
  \<open>getReservesByPairs\<close> stands for the batched call of the lookup contract; \<open>reserves\<close>
  is its answer. The loop runs over the markets by index: \<^verbatim>\<open>reserves[i]\<close> past the end
  of the answer is \<^verbatim>\<open>undefined\<close>, and indexing it throws after the earlier markets have
  been written. The result is the state of the market objects and the error thrown, if any.
  The entries of the list are taken to be distinct objects, as those built by discovery are.
\<close>

fun updateReserves_loop :: "Market list \<Rightarrow> int list list \<Rightarrow> Market list \<times> error option" where
  "updateReserves_loop [] reserves = ([], None)"
| "updateReserves_loop (marketPair # rest) [] = (marketPair # rest, Some TypeError)"
| "updateReserves_loop (marketPair # rest) (reserve # reserves) =
     (case updateReserves_loop rest reserves of
        (rest', e) \<Rightarrow>
          (setReservesViaOrderedBalances marketPair [js_idx reserve 0, js_idx reserve 1] # rest', e))"

definition updateReserves :: "(string list \<Rightarrow> int list list) \<Rightarrow> Market list \<Rightarrow> Market list \<times> error option" where
  "updateReserves getReservesByPairs allPairs =
     (let pairAddresses = map marketAddress allPairs;
          reserves = getReservesByPairs pairAddresses
      in updateReserves_loop allPairs reserves)"

section \<open>Discovery\<close>

definition BATCH_COUNT_LIMIT :: nat where
  "BATCH_COUNT_LIMIT = 100"

definition UNISWAP_BATCH_SIZE :: nat where
  "UNISWAP_BATCH_SIZE = 1000"

definition blacklistTokens :: "string list" where
  "blacklistTokens = [''0xD75EA151a61d06868E31F8988D28DFE5E9df57B4'']"

text \<open>
  Modelled from the spec: the interface of the lookup contract is not among the sources.
  A record of the registry is a triple \<open>(pair[0], pair[1], pair[2])\<close> of two assets and
  the pool address (the spec, on external interfaces), and an entry of the reserves answer
  is an array of BigNumbers of which the first two are read.

  \<open>pair_market\<close> is the body of the inner loop: \<open>None\<close> where the source continues or
  skips a blacklisted token.
\<close>

type_synonym raw_pair = "string \<times> string \<times> string"

definition pair_market :: "string \<Rightarrow> raw_pair \<Rightarrow> Market option" where
  "pair_market weth pair =
     (case pair of (p0, p1, addr) \<Rightarrow>
        (if p0 = weth then
           (if p1 \<notin> set blacklistTokens then Some (UniswappyV2EthPair addr [p0, p1] []) else None)
         else if p1 = weth then
           (if p0 \<notin> set blacklistTokens then Some (UniswappyV2EthPair addr [p0, p1] []) else None)
         else None))"

text \<open>
  The outer loop, for a batch count \<open>limit\<close> and a batch size \<open>bsize\<close>.
  \<open>getPairsByIndexRange\<close> is the registry call for the given factory; \<open>fetched\<close> records
  the start index of every call made.
\<close>

function discover_loop ::
  "nat \<Rightarrow> nat \<Rightarrow> (nat \<Rightarrow> nat \<Rightarrow> raw_pair list) \<Rightarrow> string \<Rightarrow> nat \<Rightarrow> Market list \<Rightarrow> nat list
   \<Rightarrow> Market list \<times> nat list" where
  "discover_loop limit bsize getPairsByIndexRange weth i marketPairs fetched =
     (if i < limit * bsize then
        (let pairs = getPairsByIndexRange i (i + bsize);
             marketPairs' = marketPairs @ List.map_filter (pair_market weth) pairs;
             fetched' = fetched @ [i]
         in if length pairs < bsize then (marketPairs', fetched')
            else discover_loop limit bsize getPairsByIndexRange weth (i + bsize) marketPairs' fetched')
      else (marketPairs, fetched))"
  by pat_completeness auto
termination
proof (relation "measure (\<lambda>(limit, bsize, q, weth, i, ms, fs). limit * bsize - i)")
  show "wf (measure (\<lambda>(limit, bsize, q, weth, i, ms, fs). limit * bsize - i))"
    by simp
next
  fix limit bsize :: nat and q :: "nat \<Rightarrow> nat \<Rightarrow> raw_pair list" and weth :: string
    and i :: nat and ms :: "Market list" and fs :: "nat list"
    and pairs ms' fs'
  assume "i < limit * bsize"
  then have "0 < bsize"
    by (cases bsize) simp_all
  with \<open>i < limit * bsize\<close>
  show "((limit, bsize, q, weth, i + bsize, ms', fs'), (limit, bsize, q, weth, i, ms, fs))
          \<in> measure (\<lambda>(limit, bsize, q, weth, i, ms, fs). limit * bsize - i)"
    by simp
qed

declare discover_loop.simps [simp del]

definition getUniswappyMarkets_trace :: "(nat \<Rightarrow> nat \<Rightarrow> raw_pair list) \<Rightarrow> string \<Rightarrow> Market list \<times> nat list" where
  "getUniswappyMarkets_trace getPairsByIndexRange weth =
     discover_loop BATCH_COUNT_LIMIT UNISWAP_BATCH_SIZE getPairsByIndexRange weth 0 [] []"

definition getUniswappyMarkets :: "(nat \<Rightarrow> nat \<Rightarrow> raw_pair list) \<Rightarrow> string \<Rightarrow> Market list" where
  "getUniswappyMarkets getPairsByIndexRange weth = fst (getUniswappyMarkets_trace getPairsByIndexRange weth)"

section \<open>Grouping\<close>

record GroupedMarkets =
  marketsByToken :: "(string \<times> Market list) list"
  allMarketPairs :: "Market list"

definition nonQuoteToken :: "string \<Rightarrow> Market \<Rightarrow> string" where
  \<comment> \<open>\<^verbatim>\<open>pair.tokens[0] === WETH_ADDRESS ? pair.tokens[1] : pair.tokens[0]\<close> as a group key\<close>
  "nonQuoteToken weth pair =
     key_of (if str_idx (tokens pair) 0 = Some weth then str_idx (tokens pair) 1
             else str_idx (tokens pair) 0)"

definition firstPass :: "string \<Rightarrow> Market list \<Rightarrow> Market list" where
  \<comment> \<open>\<open>marketsByTokenAll\<close>, then \<open>pickBy\<close>, \<open>values\<close>, \<open>flatten\<close>\<close>
  "firstPass weth flat =
     (let marketsByTokenAll = groupBy (nonQuoteToken weth) flat
      in concat (map snd (filter (\<lambda>(k, a). length a > 1) marketsByTokenAll)))"

fun filter_liquid :: "string \<Rightarrow> Market list \<Rightarrow> error + Market list" where
  \<comment> \<open>\<^verbatim>\<open>filter(pair => pair.getBalance(WETH_ADDRESS).gt(ETHER))\<close>; the first throw ends it\<close>
  "filter_liquid weth [] = Inr []"
| "filter_liquid weth (pair # rest) =
     (case getBalance pair weth of
        Inl e \<Rightarrow> Inl e
      | Inr (Big b) \<Rightarrow>
          (case filter_liquid weth rest of
             Inl e \<Rightarrow> Inl e
           | Inr kept \<Rightarrow> Inr (if b > ETHER then pair # kept else kept))
      | Inr _ \<Rightarrow> Inl TypeError)"

definition getUniswapMarketsByToken ::
  "(nat \<Rightarrow> nat \<Rightarrow> raw_pair list) list \<Rightarrow> (string list \<Rightarrow> int list list) \<Rightarrow> string \<Rightarrow> error + GroupedMarkets" where
  "getUniswapMarketsByToken registries getReservesByPairs weth =
     (let allPairs = map (\<lambda>q. getUniswappyMarkets q weth) registries;
          selected = firstPass weth (concat allPairs)
      in case updateReserves getReservesByPairs selected of
           (synced, Some e) \<Rightarrow> Inl e
         | (synced, None) \<Rightarrow>
             (case filter_liquid weth synced of
                Inl e \<Rightarrow> Inl e
              | Inr liquid \<Rightarrow>
                  Inr \<lparr>marketsByToken = groupBy (nonQuoteToken weth) liquid,
                       allMarketPairs = synced\<rparr>))"

section \<open>Market histories\<close>

text \<open>
  The state of a market object after a sequence of \<open>setReservesViaOrderedBalances\<close>
  calls, one per entry of \<open>calls\<close>, oldest first.
\<close>

definition after_calls :: "Market \<Rightarrow> jsval list list \<Rightarrow> Market" where
  "after_calls m calls = fold (\<lambda>balances m'. setReservesViaOrderedBalances m' balances) calls m"

section \<open>Pages read by discovery\<close>

text \<open>
  Names for stating what the discovery loop reads: the start indices requested from index
  \<open>i\<close> on, the requests of a whole run, and the test \<^verbatim>\<open>pairs.length < UNISWAP_BATCH_SIZE\<close>
  on page \<open>k\<close>.
\<close>

definition trace_from :: "nat \<Rightarrow> nat \<Rightarrow> (nat \<Rightarrow> nat \<Rightarrow> raw_pair list) \<Rightarrow> string \<Rightarrow> nat \<Rightarrow> nat list" where
  "trace_from limit bsize q weth i = snd (discover_loop limit bsize q weth i [] [])"

definition pages_fetched :: "(nat \<Rightarrow> nat \<Rightarrow> raw_pair list) \<Rightarrow> string \<Rightarrow> nat list" where
  "pages_fetched q weth = snd (getUniswappyMarkets_trace q weth)"

definition short_page :: "(nat \<Rightarrow> nat \<Rightarrow> raw_pair list) \<Rightarrow> nat \<Rightarrow> bool" where
  "short_page q k =
     (length (q (k * UNISWAP_BATCH_SIZE) (k * UNISWAP_BATCH_SIZE + UNISWAP_BATCH_SIZE))
        < UNISWAP_BATCH_SIZE)"

section \<open>Names for the two passes of grouping\<close>

text \<open>
  The flattened discovery results of all registries, and the test of the second pass,
  \<^verbatim>\<open>pair.getBalance(WETH_ADDRESS).gt(ETHER)\<close>, where it returns.
\<close>

definition discovered :: "(nat \<Rightarrow> nat \<Rightarrow> raw_pair list) list \<Rightarrow> string \<Rightarrow> Market list" where
  "discovered registries weth = concat (map (\<lambda>q. getUniswappyMarkets q weth) registries)"

definition is_liquid :: "string \<Rightarrow> Market \<Rightarrow> bool" where
  "is_liquid weth pair = (case getBalance pair weth of Inr (Big b) \<Rightarrow> b > ETHER | _ \<Rightarrow> False)"

section \<open>Properties of the swap arithmetic\<close>

lemma tdiv_nonneg: "0 \<le> a \<Longrightarrow> 0 < b \<Longrightarrow> tdiv a b = a div b"
  by (cases "a = 0") (simp_all add: tdiv_def)

lemma tdiv_nonneg_neg: "0 \<le> a \<Longrightarrow> b < 0 \<Longrightarrow> tdiv a b \<le> 0"
proof (cases "a = 0")
  case True
  then show ?thesis by (simp add: tdiv_def)
next
  case False
  assume "0 \<le> a" and b: "b < 0"
  with False have a: "0 < a" by simp
  have "0 \<le> a div (- b)"
    using a b by (simp add: pos_imp_zdiv_nonneg_iff)
  with a b show ?thesis
    by (simp add: tdiv_def)
qed

lemma bn_div_pos: "0 \<le> a \<Longrightarrow> 0 < b \<Longrightarrow> bn_div a b = Inr (a div b)"
  by (simp add: bn_div_def tdiv_nonneg)

lemma div_times_le: "0 < (d::int) \<Longrightarrow> (n div d) * d \<le> n"
  using div_mult_mod_eq [of n d] pos_mod_sign [of d n] by linarith

lemma div_le_if_le_times: "0 < (d::int) \<Longrightarrow> n \<le> q * d \<Longrightarrow> n div d \<le> q"
  using zdiv_mono1 [of n "q * d" d] by simp

lemma le_div_if_times_le: "0 < (d::int) \<Longrightarrow> q * d \<le> n \<Longrightarrow> q \<le> n div d"
  using zdiv_mono1 [of "q * d" n d] by simp

lemma div_less_if_less_times: "0 < (d::int) \<Longrightarrow> n < q * d \<Longrightarrow> n div d < q"
proof -
  assume d: "0 < d" and lt: "n < q * d"
  have "(n div d) * d \<le> n" using d by (rule div_times_le)
  with lt have "(n div d) * d < q * d" by linarith
  with d show ?thesis by (simp add: mult_less_cancel_right)
qed

lemma div_nonzero_iff: "0 \<le> (n::int) \<Longrightarrow> 0 < d \<Longrightarrow> (n div d \<noteq> 0) = (d \<le> n)"
proof -
  assume n: "0 \<le> n" and d: "0 < d"
  then have "0 \<le> n div d"
    by (simp add: pos_imp_zdiv_nonneg_iff)
  then have "(n div d \<noteq> 0) = (0 < n div d)"
    by linarith
  also have "\<dots> = (d \<le> n)"
    using d by (rule pos_imp_zdiv_pos_iff)
  finally show ?thesis .
qed

lemma getAmountOut_nonneg_eq:
  assumes "0 \<le> reserveOut" "0 \<le> amountIn" "0 < reserveIn * 1000 + amountIn * 997"
  shows "getAmountOut reserveIn reserveOut amountIn =
           Inr ((amountIn * 997 * reserveOut) div (reserveIn * 1000 + amountIn * 997))"
  using assms by (simp add: getAmountOut_def Let_def bn_div_pos)

lemma getAmountIn_nonneg_eq:
  assumes "0 \<le> reserveIn" "0 \<le> amountOut" "amountOut < reserveOut"
  shows "getAmountIn reserveIn reserveOut amountOut =
           Inr ((reserveIn * amountOut * 1000) div ((reserveOut - amountOut) * 997) + 1)"
  using assms by (simp add: getAmountIn_def Let_def bn_div_pos)

lemma getTokensOut_Big:
  "js_get (tokenBalances m) tokenIn = Big ri \<Longrightarrow> js_get (tokenBalances m) tokenOut = Big ro
   \<Longrightarrow> getTokensOut m tokenIn tokenOut amountIn = getAmountOut ri ro amountIn"
  by (simp add: getTokensOut_def)

lemma getTokensIn_Big:
  "js_get (tokenBalances m) tokenIn = Big ri \<Longrightarrow> js_get (tokenBalances m) tokenOut = Big ro
   \<Longrightarrow> getTokensIn m tokenIn tokenOut amountOut = getAmountIn ri ro amountOut"
  by (simp add: getTokensIn_def)

lemma out_le_reserve:
  fixes ri ro a :: int
  assumes "0 \<le> ro" "0 \<le> a" "0 \<le> ri" "0 < ri * 1000 + a * 997"
  shows "(a * 997 * ro) div (ri * 1000 + a * 997) \<le> ro"
proof (rule div_le_if_le_times)
  show "0 < ri * 1000 + a * 997" by fact
  have "0 \<le> ro * (ri * 1000)" using assms by simp
  then show "a * 997 * ro \<le> ro * (ri * 1000 + a * 997)"
    by (simp add: algebra_simps)
qed

lemma out_less_reserve:
  fixes ri ro a :: int
  assumes "0 < ro" "0 \<le> a" "0 < ri"
  shows "(a * 997 * ro) div (ri * 1000 + a * 997) < ro"
proof (rule div_less_if_less_times)
  show "0 < ri * 1000 + a * 997" using assms by simp
  have "0 < ro * (ri * 1000)" using assms by simp
  then show "a * 997 * ro < ro * (ri * 1000 + a * 997)"
    by (simp add: algebra_simps)
qed

lemma out_mono_amountIn:
  fixes ri ro a a' :: int
  assumes "0 \<le> ro" "0 \<le> a" "a \<le> a'" "0 \<le> ri" "0 < ri * 1000 + a * 997"
  shows "(a * 997 * ro) div (ri * 1000 + a * 997) \<le> (a' * 997 * ro) div (ri * 1000 + a' * 997)"
proof -
  let ?q = "(a * 997 * ro) div (ri * 1000 + a * 997)"
  have d': "0 < ri * 1000 + a' * 997" using assms by linarith
  have q1: "?q * (ri * 1000 + a * 997) \<le> a * 997 * ro"
    using assms(5) by (rule div_times_le)
  have q2: "?q \<le> ro" using assms by (intro out_le_reserve) auto
  have "0 \<le> (a' - a) * 997" using assms by simp
  with q2 have "?q * ((a' - a) * 997) \<le> ro * ((a' - a) * 997)"
    by (rule mult_right_mono)
  with q1 have "?q * (ri * 1000 + a' * 997) \<le> a' * 997 * ro"
    by (simp add: algebra_simps)
  with d' show ?thesis by (intro le_div_if_times_le)
qed

lemma out_mono_reserveOut:
  fixes ri ro ro' a :: int
  assumes "0 \<le> a" "ro \<le> ro'" "0 < ri * 1000 + a * 997"
  shows "(a * 997 * ro) div (ri * 1000 + a * 997) \<le> (a * 997 * ro') div (ri * 1000 + a * 997)"
proof (rule zdiv_mono1)
  show "a * 997 * ro \<le> a * 997 * ro'" using assms by (intro mult_left_mono) auto
  show "0 < ri * 1000 + a * 997" by fact
qed

lemma out_antimono_reserveIn:
  fixes ri ri' ro a :: int
  assumes "0 \<le> a" "0 \<le> ro" "ri \<le> ri'" "0 < ri * 1000 + a * 997"
  shows "(a * 997 * ro) div (ri' * 1000 + a * 997) \<le> (a * 997 * ro) div (ri * 1000 + a * 997)"
proof (rule zdiv_mono2)
  show "0 \<le> a * 997 * ro" using assms by simp
  show "0 < ri * 1000 + a * 997" by fact
  show "ri * 1000 + a * 997 \<le> ri' * 1000 + a * 997" using assms by simp
qed

lemma roundtrip_bound:
  fixes ri ro a :: int
  assumes "0 < ri" "0 < ro" "0 < a"
  defines "x \<equiv> (a * 997 * ro) div (ri * 1000 + a * 997)"
  shows "(ri * x * 1000) div ((ro - x) * 997) + 1 \<le> a + 1"
    and "\<not> (ri * 1000 + a * 997) dvd (a * 997 * ro) \<Longrightarrow> (ri * x * 1000) div ((ro - x) * 997) + 1 \<le> a"
proof -
  have d: "0 < ri * 1000 + a * 997" using assms by simp
  have xlt: "x < ro" unfolding x_def using assms by (intro out_less_reserve) auto
  then have D: "0 < (ro - x) * 997" by simp
  have xd: "x * (ri * 1000 + a * 997) \<le> a * 997 * ro"
    unfolding x_def using d by (rule div_times_le)
  then have "ri * x * 1000 \<le> a * ((ro - x) * 997)"
    by (simp add: algebra_simps)
  with D have "(ri * x * 1000) div ((ro - x) * 997) \<le> a"
    by (intro div_le_if_le_times)
  then show "(ri * x * 1000) div ((ro - x) * 997) + 1 \<le> a + 1" by simp
  assume nd: "\<not> (ri * 1000 + a * 997) dvd (a * 997 * ro)"
  have "x * (ri * 1000 + a * 997) \<noteq> a * 997 * ro"
  proof
    assume "x * (ri * 1000 + a * 997) = a * 997 * ro"
    then have "(ri * 1000 + a * 997) dvd (a * 997 * ro)"
      by (metis dvd_triv_right)
    with nd show False by simp
  qed
  with xd have "x * (ri * 1000 + a * 997) < a * 997 * ro" by simp
  then have "ri * x * 1000 < a * ((ro - x) * 997)"
    by (simp add: algebra_simps)
  with D have "(ri * x * 1000) div ((ro - x) * 997) < a"
    by (intro div_less_if_less_times)
  then show "(ri * x * 1000) div ((ro - x) * 997) + 1 \<le> a" by simp
qed

subsection \<open>The forward quote\<close>

text \<open>
  C1 as the spec states it, for all non-negative reserves and inputs, fails where the
  denominator is zero: with \<open>reserveIn = 0\<close> and \<open>amountIn = 0\<close> the division throws and
  no amount is returned.
\<close>

theorem getAmountOut_zero_denominator_counterexample:
  "getAmountOut 0 1000000 0 = Inl DivisionByZero
   \<and> getAmountOut 0 1000000 0 \<noteq> Inr ((0 * 997 * 1000000) div (0 * 1000 + 0 * 997))"
  by (simp add: getAmountOut_def bn_div_def)

text \<open>
  C1, amended: for non-negative reserves and input with a positive denominator
  \<open>reserveIn * 1000 + amountIn * 997\<close>, \<open>getAmountOut\<close> returns exactly
  \<open>floor ((amountIn * 997 * reserveOut) / (reserveIn * 1000 + amountIn * 997))\<close>, and so does
  \<open>getTokensOut\<close> on a market holding these reserves; with both reserves \<open>1000000\<close> and
  \<open>amountIn = 1000\<close> the result is \<open>996\<close>. With \<open>reserveIn = amountIn = 0\<close> the call
  fails with the division-by-zero error.
\<close>

theorem getAmountOut_formula:
  "(0 \<le> reserveIn \<and> 0 \<le> reserveOut \<and> 0 \<le> amountIn \<and> 0 < reserveIn * 1000 + amountIn * 997
      \<longrightarrow> getAmountOut reserveIn reserveOut amountIn =
            Inr ((amountIn * 997 * reserveOut) div (reserveIn * 1000 + amountIn * 997))
        \<and> (js_get (tokenBalances m) tokenIn = Big reserveIn
             \<and> js_get (tokenBalances m) tokenOut = Big reserveOut
           \<longrightarrow> getTokensOut m tokenIn tokenOut amountIn =
                 Inr ((amountIn * 997 * reserveOut) div (reserveIn * 1000 + amountIn * 997))))
   \<and> getAmountOut 0 reserveOut 0 = Inl DivisionByZero
   \<and> getAmountOut 1000000 1000000 1000 = Inr 996"
proof -
  have "getAmountOut 0 reserveOut 0 = Inl DivisionByZero"
    by (simp add: getAmountOut_def bn_div_def)
  moreover have "getAmountOut 1000000 1000000 1000 = Inr 996"
    by (simp add: getAmountOut_nonneg_eq)
  ultimately show ?thesis
    by (simp add: getAmountOut_nonneg_eq getTokensOut_Big)
qed

theorem getAmountOut_formula_witness:
  "getAmountOut 5000 3000 70 = Inr 41
   \<and> getTokensOut (setReservesViaOrderedBalances (UniswappyV2EthPair ''P'' [''A'', ''B''] [])
        [Big 5000, Big 3000]) ''A'' ''B'' 70 = Inr 41"
  using getAmountOut_formula [of 5000 3000 70
      "setReservesViaOrderedBalances (UniswappyV2EthPair ''P'' [''A'', ''B''] []) [Big 5000, Big 3000]"
      "''A''" "''B''"]
  by (simp add: setReservesViaOrderedBalances_def setReservesViaMatchingArray_def
      UniswappyV2EthPair_def zipObject_def isEqual_def own_keys_def js_get_def)

subsection \<open>The inverse quote\<close>

text \<open>
  C2: for non-negative \<open>reserveIn\<close> and \<open>amountOut\<close> with \<open>amountOut < reserveOut\<close>,
  \<open>getAmountIn\<close> returns exactly
  \<open>floor ((reserveIn * amountOut * 1000) / ((reserveOut - amountOut) * 997)) + 1\<close>, and so
  does \<open>getTokensIn\<close> on a market holding these reserves.
\<close>

theorem getAmountIn_formula:
  "0 \<le> reserveIn \<and> 0 \<le> amountOut \<and> amountOut < reserveOut
   \<longrightarrow> getAmountIn reserveIn reserveOut amountOut =
         Inr ((reserveIn * amountOut * 1000) div ((reserveOut - amountOut) * 997) + 1)
     \<and> (js_get (tokenBalances m) tokenIn = Big reserveIn
          \<and> js_get (tokenBalances m) tokenOut = Big reserveOut
        \<longrightarrow> getTokensIn m tokenIn tokenOut amountOut =
              Inr ((reserveIn * amountOut * 1000) div ((reserveOut - amountOut) * 997) + 1))"
  by (simp add: getAmountIn_nonneg_eq getTokensIn_Big)

theorem getAmountIn_formula_witness:
  "getAmountIn 5000 3000 41 = Inr 70
   \<and> getTokensIn (setReservesViaOrderedBalances (UniswappyV2EthPair ''P'' [''A'', ''B''] [])
        [Big 5000, Big 3000]) ''A'' ''B'' 41 = Inr 70"
  using getAmountIn_formula [of 5000 41 3000
      "setReservesViaOrderedBalances (UniswappyV2EthPair ''P'' [''A'', ''B''] []) [Big 5000, Big 3000]"
      "''A''" "''B''"]
  by (simp add: setReservesViaOrderedBalances_def setReservesViaMatchingArray_def
      UniswappyV2EthPair_def zipObject_def isEqual_def own_keys_def js_get_def)

subsection \<open>Round trip of the two quotes\<close>

text \<open>
  C3 as the spec writes it exchanges the two assets in the inverse quote. On a market
  with reserves \<open>1000\<close> of \<open>A\<close> and \<open>2000\<close> of \<open>B\<close>, selling \<open>100\<close> of \<open>A\<close> quotes
  \<open>181\<close> of \<open>B\<close>, and \<open>getTokensIn B A 181\<close> is \<open>444\<close>, which exceeds \<open>100\<close>.
\<close>

theorem quote_roundtrip_counterexample:
  "getTokensOut (setReservesViaOrderedBalances (UniswappyV2EthPair ''P'' [''A'', ''B''] [])
      [Big 1000, Big 2000]) ''A'' ''B'' 100 = Inr 181
   \<and> getTokensIn (setReservesViaOrderedBalances (UniswappyV2EthPair ''P'' [''A'', ''B''] [])
      [Big 1000, Big 2000]) ''B'' ''A'' 181 = Inr 444
   \<and> \<not> (444 \<le> (100::int))"
  by (simp add: setReservesViaOrderedBalances_def setReservesViaMatchingArray_def
      UniswappyV2EthPair_def zipObject_def isEqual_def own_keys_def js_get_def
      getTokensOut_def getTokensIn_def getAmountOut_nonneg_eq getAmountIn_nonneg_eq)

text \<open>
  With both quotes in the same direction the bound \<open>amountIn\<close> still fails when the
  forward division is exact: the \<open>+ 1\<close> of the inverse quote then overshoots by one.
\<close>

lemma quote_roundtrip_exact_division:
  "getAmountOut 1 1997 1 = Inr 997 \<and> getAmountIn 1 1997 997 = Inr 2"
  by (simp add: getAmountOut_nonneg_eq getAmountIn_nonneg_eq)

text \<open>
  C3, amended: for a market with positive reserves of both assets and \<open>amountIn > 0\<close>,
  both quotes succeed and the inverse quote taken in the same direction,
  \<open>getTokensIn assetIn assetOut (getTokensOut assetIn assetOut amountIn)\<close>, is at most
  \<open>amountIn + 1\<close>; it is at most \<open>amountIn\<close> whenever the forward division leaves a
  remainder.
\<close>

theorem quote_roundtrip:
  "js_get (tokenBalances m) assetIn = Big ri \<and> js_get (tokenBalances m) assetOut = Big ro
     \<and> 0 < ri \<and> 0 < ro \<and> 0 < amountIn
   \<longrightarrow> (\<exists>x y. getTokensOut m assetIn assetOut amountIn = Inr x
            \<and> getTokensIn m assetIn assetOut x = Inr y
            \<and> y \<le> amountIn + 1
            \<and> (\<not> (ri * 1000 + amountIn * 997) dvd (amountIn * 997 * ro) \<longrightarrow> y \<le> amountIn))"
proof
  assume h: "js_get (tokenBalances m) assetIn = Big ri \<and> js_get (tokenBalances m) assetOut = Big ro
     \<and> 0 < ri \<and> 0 < ro \<and> 0 < amountIn"
  let ?x = "(amountIn * 997 * ro) div (ri * 1000 + amountIn * 997)"
  let ?y = "(ri * ?x * 1000) div ((ro - ?x) * 997) + 1"
  from h have pos: "0 < ri" "0 < ro" "0 < amountIn" by simp_all
  have out: "getTokensOut m assetIn assetOut amountIn = Inr ?x"
    using h by (simp add: getTokensOut_Big getAmountOut_nonneg_eq)
  have x0: "0 \<le> ?x"
    using pos by (simp add: pos_imp_zdiv_nonneg_iff)
  have xlt: "?x < ro"
    using pos by (intro out_less_reserve) simp_all
  have inn: "getTokensIn m assetIn assetOut ?x = Inr ?y"
    using h x0 xlt by (simp add: getTokensIn_Big getAmountIn_nonneg_eq)
  have b1: "?y \<le> amountIn + 1"
    using pos by (rule roundtrip_bound(1))
  have b2: "\<not> (ri * 1000 + amountIn * 997) dvd (amountIn * 997 * ro) \<longrightarrow> ?y \<le> amountIn"
    using roundtrip_bound(2) [OF pos] by blast
  from out inn b1 b2 show "\<exists>x y. getTokensOut m assetIn assetOut amountIn = Inr x
            \<and> getTokensIn m assetIn assetOut x = Inr y
            \<and> y \<le> amountIn + 1
            \<and> (\<not> (ri * 1000 + amountIn * 997) dvd (amountIn * 997 * ro) \<longrightarrow> y \<le> amountIn)"
    by blast
qed

theorem quote_roundtrip_witness:
  "\<exists>x y. getTokensOut (setReservesViaOrderedBalances (UniswappyV2EthPair ''P'' [''A'', ''B''] [])
              [Big 1000, Big 2000]) ''A'' ''B'' 100 = Inr x
     \<and> getTokensIn (setReservesViaOrderedBalances (UniswappyV2EthPair ''P'' [''A'', ''B''] [])
              [Big 1000, Big 2000]) ''A'' ''B'' x = Inr y
     \<and> y \<le> 100"
  using quote_roundtrip [of
      "setReservesViaOrderedBalances (UniswappyV2EthPair ''P'' [''A'', ''B''] []) [Big 1000, Big 2000]"
      "''A''" 1000 "''B''" 2000 100]
  by (simp add: setReservesViaOrderedBalances_def setReservesViaMatchingArray_def
      UniswappyV2EthPair_def zipObject_def isEqual_def own_keys_def js_get_def) blast

subsection \<open>Monotonicity of the forward quote\<close>

text \<open>
  C4 claims strict monotonicity. The floor makes the quote constant on whole ranges: with
  reserves \<open>(1000000, 1000)\<close> the inputs \<open>1\<close> and \<open>2\<close> both quote \<open>0\<close>, and so do the
  larger \<open>reserveOut = 1001\<close> and the larger \<open>reserveIn = 1000001\<close>.
\<close>

theorem getAmountOut_strict_counterexample:
  "getAmountOut 1000000 1000 1 = Inr 0 \<and> getAmountOut 1000000 1000 2 = Inr 0
   \<and> getAmountOut 1000000 1001 1 = Inr 0 \<and> getAmountOut 1000001 1000 1 = Inr 0"
  by (simp add: getAmountOut_nonneg_eq)

text \<open>
  C4, amended: over positive reserves and positive input, \<open>getAmountOut\<close> always returns
  and is monotone, not strictly: non-decreasing in \<open>amountIn\<close>, non-decreasing in
  \<open>reserveOut\<close> and non-increasing in \<open>reserveIn\<close>.
\<close>

theorem getAmountOut_monotone:
  "0 < reserveIn \<and> 0 < reserveOut \<and> 0 < amountIn
   \<longrightarrow> (amountIn \<le> amountIn'
          \<longrightarrow> (\<exists>x y. getAmountOut reserveIn reserveOut amountIn = Inr x
                \<and> getAmountOut reserveIn reserveOut amountIn' = Inr y \<and> x \<le> y))
     \<and> (reserveOut \<le> reserveOut'
          \<longrightarrow> (\<exists>x y. getAmountOut reserveIn reserveOut amountIn = Inr x
                \<and> getAmountOut reserveIn reserveOut' amountIn = Inr y \<and> x \<le> y))
     \<and> (reserveIn \<le> reserveIn'
          \<longrightarrow> (\<exists>x y. getAmountOut reserveIn reserveOut amountIn = Inr x
                \<and> getAmountOut reserveIn' reserveOut amountIn = Inr y \<and> y \<le> x))"
proof (intro impI conjI)
  assume h: "0 < reserveIn \<and> 0 < reserveOut \<and> 0 < amountIn"
  then have d: "0 < reserveIn * 1000 + amountIn * 997" by simp
  {
    assume le: "amountIn \<le> amountIn'"
    with h have "0 < reserveIn * 1000 + amountIn' * 997" by simp
    with h le d show "\<exists>x y. getAmountOut reserveIn reserveOut amountIn = Inr x
        \<and> getAmountOut reserveIn reserveOut amountIn' = Inr y \<and> x \<le> y"
      by (simp add: getAmountOut_nonneg_eq out_mono_amountIn)
  }
  {
    assume le: "reserveOut \<le> reserveOut'"
    with h d show "\<exists>x y. getAmountOut reserveIn reserveOut amountIn = Inr x
        \<and> getAmountOut reserveIn reserveOut' amountIn = Inr y \<and> x \<le> y"
      by (simp add: getAmountOut_nonneg_eq out_mono_reserveOut)
  }
  {
    assume le: "reserveIn \<le> reserveIn'"
    with h have "0 < reserveIn' * 1000 + amountIn * 997" by simp
    with h le d show "\<exists>x y. getAmountOut reserveIn reserveOut amountIn = Inr x
        \<and> getAmountOut reserveIn' reserveOut amountIn = Inr y \<and> y \<le> x"
      by (simp add: getAmountOut_nonneg_eq out_antimono_reserveIn)
  }
qed

theorem getAmountOut_monotone_witness:
  "(\<exists>x y. getAmountOut 5000 3000 70 = Inr x \<and> getAmountOut 5000 3000 80 = Inr y \<and> x \<le> y)
   \<and> (\<exists>x y. getAmountOut 5000 3000 70 = Inr x \<and> getAmountOut 5000 3100 70 = Inr y \<and> x \<le> y)
   \<and> (\<exists>x y. getAmountOut 5000 3000 70 = Inr x \<and> getAmountOut 5100 3000 70 = Inr y \<and> y \<le> x)"
  using getAmountOut_monotone [of 5000 3000 70 80 3100 5100]
  by simp

subsection \<open>Failure of the inverse quote\<close>

text \<open>
  C5 claims an error for every \<open>amountOut \<ge> reserveOut\<close>. Beyond the reserve the
  denominator is negative, not zero, and \<open>getAmountIn\<close> returns a number: with reserves
  \<open>(1000, 1000)\<close> and \<open>amountOut = 2000\<close> it returns \<open>-2005\<close>.
\<close>

theorem getAmountIn_beyond_reserve_counterexample:
  "getAmountIn 1000 1000 2000 = Inr (- 2005)"
  by (simp add: getAmountIn_def bn_div_def tdiv_def)

text \<open>
  C5, amended: \<open>getAmountIn\<close> has no liquidity check. It fails, with the division-by-zero
  error of \<open>BigNumber.div\<close>, exactly when \<open>amountOut = reserveOut\<close>, and returns a value
  for every other \<open>amountOut\<close>, so in particular whenever \<open>amountOut < reserveOut\<close>; for
  \<open>amountOut > reserveOut\<close> (with non-negative \<open>reserveIn\<close> and \<open>amountOut\<close>) the value
  returned is at most \<open>1\<close>.
\<close>

theorem getAmountIn_failure:
  "(amountOut = reserveOut \<longrightarrow> getAmountIn reserveIn reserveOut amountOut = Inl DivisionByZero)
   \<and> (amountOut \<noteq> reserveOut \<longrightarrow> (\<exists>v. getAmountIn reserveIn reserveOut amountOut = Inr v))
   \<and> (0 \<le> reserveIn \<and> 0 \<le> amountOut \<and> reserveOut < amountOut
        \<longrightarrow> (\<exists>v. getAmountIn reserveIn reserveOut amountOut = Inr v \<and> v \<le> 1))"
proof (intro conjI impI)
  assume "amountOut = reserveOut"
  then show "getAmountIn reserveIn reserveOut amountOut = Inl DivisionByZero"
    by (simp add: getAmountIn_def bn_div_def)
next
  assume "amountOut \<noteq> reserveOut"
  then show "\<exists>v. getAmountIn reserveIn reserveOut amountOut = Inr v"
    by (simp add: getAmountIn_def bn_div_def)
next
  assume h: "0 \<le> reserveIn \<and> 0 \<le> amountOut \<and> reserveOut < amountOut"
  then have "tdiv (reserveIn * amountOut * 1000) ((reserveOut - amountOut) * 997) \<le> 0"
    by (intro tdiv_nonneg_neg) simp_all
  with h show "\<exists>v. getAmountIn reserveIn reserveOut amountOut = Inr v \<and> v \<le> 1"
    by (simp add: getAmountIn_def bn_div_def)
qed

theorem getAmountIn_failure_witness:
  "getAmountIn 1000 1000 1000 = Inl DivisionByZero
   \<and> (\<exists>v. getAmountIn 1000 1000 999 = Inr v)
   \<and> (\<exists>v. getAmountIn 1000 1000 2000 = Inr v \<and> v \<le> 1)"
  using getAmountIn_failure [of 1000 1000 1000] getAmountIn_failure [of 999 1000 1000]
    getAmountIn_failure [of 2000 1000 1000]
  by simp

section \<open>Properties of the token-balance object\<close>

lemma own_keys_zipObject_from:
  "own_keys (zipObject_from props vals acc) = own_keys acc \<union> set props"
proof (induction props arbitrary: vals acc)
  case Nil
  show ?case by simp
next
  case (Cons p props)
  have "fst ` set (AList.update p v acc) = insert p (fst ` set acc)" for v
    by (simp add: dom_update)
  with Cons show ?case
    by (auto simp: own_keys_def)
qed

lemma own_keys_zipObject: "own_keys (zipObject props vals) = set props"
  by (simp add: zipObject_def own_keys_zipObject_from) (simp add: own_keys_def)

lemma own_keys_dom: "own_keys obj = dom (map_of obj)"
  by (simp add: own_keys_def dom_map_of_conv_image_fst)

lemma isEqual_iff: "isEqual a b \<longleftrightarrow> map_of a = map_of b"
proof
  assume eq: "isEqual a b"
  show "map_of a = map_of b"
  proof
    fix k
    show "map_of a k = map_of b k"
    proof (cases "k \<in> own_keys a")
      case True
      then have "k \<in> set (map fst a)" by (simp add: own_keys_def)
      with eq show ?thesis unfolding isEqual_def by blast
    next
      case False
      moreover from eq False have "k \<notin> own_keys b" by (simp add: isEqual_def)
      ultimately show ?thesis
        by (simp add: own_keys_dom domIff)
    qed
  qed
next
  assume "map_of a = map_of b"
  then show "isEqual a b"
    by (simp add: isEqual_def own_keys_dom)
qed

lemma zipObject_pair:
  "A \<noteq> B \<Longrightarrow> zipObject [A, B] (x # y # rest) = [(A, x), (B, y)]"
  "A \<noteq> B \<Longrightarrow> zipObject [A, B] [x] = [(A, x), (B, Undefined)]"
  "A \<noteq> B \<Longrightarrow> zipObject [A, B] [] = [(A, Undefined), (B, Undefined)]"
  by (simp_all add: zipObject_def)

lemma setReserves_map_of:
  "map_of (tokenBalances (setReservesViaOrderedBalances m balances)) =
     map_of (zipObject (tokens m) balances)"
  by (simp add: setReservesViaOrderedBalances_def setReservesViaMatchingArray_def Let_def
      isEqual_iff)

lemma setReserves_fields:
  "tokens (setReservesViaOrderedBalances m balances) = tokens m"
  "marketAddress (setReservesViaOrderedBalances m balances) = marketAddress m"
  "protocol (setReservesViaOrderedBalances m balances) = protocol m"
  by (simp_all add: setReservesViaOrderedBalances_def setReservesViaMatchingArray_def Let_def)

lemma setReserves_own_keys:
  "own_keys (tokenBalances (setReservesViaOrderedBalances m balances)) = set (tokens m)"
  using own_keys_zipObject [of "tokens m" balances]
  by (simp add: own_keys_dom setReserves_map_of)

lemma setReserves_js_get:
  "js_get (tokenBalances (setReservesViaOrderedBalances m balances)) k =
     js_get (zipObject (tokens m) balances) k"
  by (simp add: js_get_def setReserves_map_of)

lemma after_calls_snoc:
  "after_calls m (calls @ [balances]) = setReservesViaOrderedBalances (after_calls m calls) balances"
  by (simp add: after_calls_def)

lemma after_calls_tokens: "tokens (after_calls m calls) = tokens m"
  by (induction calls rule: rev_induct) (simp_all add: after_calls_snoc setReserves_fields, simp add: after_calls_def)

lemma after_calls_own_keys:
  "own_keys (tokenBalances (after_calls (UniswappyV2EthPair addr toks proto) calls)) = set toks"
proof (cases calls rule: rev_cases)
  case Nil
  then show ?thesis
    by (simp add: after_calls_def UniswappyV2EthPair_def own_keys_zipObject)
next
  case (snoc calls' balances)
  then show ?thesis
    by (simp add: after_calls_snoc setReserves_own_keys after_calls_tokens)
       (simp add: UniswappyV2EthPair_def)
qed

lemma after_calls_js_get:
  assumes "A \<noteq> B"
    and "calls = [] \<and> x = 0 \<and> y = 0 \<or> calls \<noteq> [] \<and> (\<exists>rest. last calls = Big x # Big y # rest)"
  shows "js_get (tokenBalances (after_calls (UniswappyV2EthPair addr [A, B] proto) calls)) A = Big x"
    and "js_get (tokenBalances (after_calls (UniswappyV2EthPair addr [A, B] proto) calls)) B = Big y"
proof -
  let ?m = "after_calls (UniswappyV2EthPair addr [A, B] proto) calls"
  have "map_of (tokenBalances ?m) = map_of [(A, Big x), (B, Big y)]"
  proof (cases calls rule: rev_cases)
    case Nil
    with assms show ?thesis
      by (simp add: after_calls_def UniswappyV2EthPair_def zipObject_pair)
  next
    case (snoc calls' balances)
    with assms(2) obtain rest where "balances = Big x # Big y # rest" by auto
    with snoc assms(1) show ?thesis
      by (simp add: after_calls_snoc setReserves_map_of after_calls_tokens)
         (simp add: UniswappyV2EthPair_def zipObject_pair)
  qed
  with assms(1) show "js_get (tokenBalances ?m) A = Big x" "js_get (tokenBalances ?m) B = Big y"
    by (simp_all add: js_get_def)
qed

subsection \<open>The key set of the balance object\<close>

text \<open>
  C10 fails in two places. A call with fewer than two balances stores \<^verbatim>\<open>undefined\<close>
  for the second token, and \<open>getBalance\<close> on that constituent then throws; and the
  operator \<^verbatim>\<open>in\<close> of \<open>receiveDirectly\<close> also finds the members every object inherits,
  such as \<^verbatim>\<open>constructor\<close>.
\<close>

theorem token_balances_counterexample:
  "getBalance (after_calls (UniswappyV2EthPair ''P'' [''A'', ''B''] []) [[Big 5]]) ''B'' = Inl BadToken
   \<and> getTokensOut (after_calls (UniswappyV2EthPair ''P'' [''A'', ''B''] []) [[Big 5]]) ''A'' ''B'' 1
       = Inl InvalidBigNumber
   \<and> receiveDirectly (UniswappyV2EthPair ''P'' [''A'', ''B''] []) ''constructor''
   \<and> ''constructor'' \<noteq> ''A'' \<and> ''constructor'' \<noteq> ''B''"
  by (simp add: after_calls_def setReservesViaOrderedBalances_def setReservesViaMatchingArray_def
      UniswappyV2EthPair_def zipObject_def isEqual_def own_keys_def js_get_def js_in_def
      getBalance_def getTokensOut_def receiveDirectly_def Object_prototype_names_def)

text \<open>
  C10, amended: for a market constructed with two distinct token addresses \<open>A\<close> and
  \<open>B\<close>, after construction and after any sequence of \<open>setReservesViaOrderedBalances\<close>
  calls, the own keys of the balance object are exactly \<open>A\<close> and \<open>B\<close>;
  \<open>receiveDirectly\<close> is true for \<open>A\<close> and \<open>B\<close> and, among all other strings, only for
  the names of members inherited from \<^verbatim>\<open>Object.prototype\<close>. When no call has been made
  (balances \<open>0, 0\<close>) or the latest call supplied at least two BigNumbers \<open>x, y\<close>,
  \<open>getBalance\<close> returns \<open>x\<close> for \<open>A\<close> and \<open>y\<close> for \<open>B\<close>, and \<open>getTokensIn\<close> and
  \<open>getTokensOut\<close> between the two constituents are \<open>getAmountIn\<close> and \<open>getAmountOut\<close>
  on these reserves.
\<close>

theorem token_balances_invariant:
  "A \<noteq> B \<longrightarrow>
     own_keys (tokenBalances (after_calls (UniswappyV2EthPair addr [A, B] proto) calls)) = {A, B}
   \<and> (\<forall>t. receiveDirectly (after_calls (UniswappyV2EthPair addr [A, B] proto) calls) t
            = (t = A \<or> t = B \<or> t \<in> set Object_prototype_names))
   \<and> (calls = [] \<and> x = 0 \<and> y = 0 \<or> calls \<noteq> [] \<and> (\<exists>rest. last calls = Big x # Big y # rest)
        \<longrightarrow> getBalance (after_calls (UniswappyV2EthPair addr [A, B] proto) calls) A = Inr (Big x)
          \<and> getBalance (after_calls (UniswappyV2EthPair addr [A, B] proto) calls) B = Inr (Big y)
          \<and> getTokensOut (after_calls (UniswappyV2EthPair addr [A, B] proto) calls) A B amount
              = getAmountOut x y amount
          \<and> getTokensOut (after_calls (UniswappyV2EthPair addr [A, B] proto) calls) B A amount
              = getAmountOut y x amount
          \<and> getTokensIn (after_calls (UniswappyV2EthPair addr [A, B] proto) calls) A B amount
              = getAmountIn x y amount
          \<and> getTokensIn (after_calls (UniswappyV2EthPair addr [A, B] proto) calls) B A amount
              = getAmountIn y x amount)"
proof (intro impI conjI allI)
  let ?m = "after_calls (UniswappyV2EthPair addr [A, B] proto) calls"
  show keys: "own_keys (tokenBalances ?m) = {A, B}"
    by (simp add: after_calls_own_keys insert_commute)
  show "receiveDirectly ?m t = (t = A \<or> t = B \<or> t \<in> set Object_prototype_names)" for t
    unfolding receiveDirectly_def js_in_def keys by auto
  assume "A \<noteq> B"
    and "calls = [] \<and> x = 0 \<and> y = 0 \<or> calls \<noteq> [] \<and> (\<exists>rest. last calls = Big x # Big y # rest)"
  then have g: "js_get (tokenBalances ?m) A = Big x" "js_get (tokenBalances ?m) B = Big y"
    by (rule after_calls_js_get)+
  show "getBalance ?m A = Inr (Big x)" "getBalance ?m B = Inr (Big y)"
    using g by (simp_all add: getBalance_def)
  show "getTokensOut ?m A B amount = getAmountOut x y amount"
    "getTokensOut ?m B A amount = getAmountOut y x amount"
    using g by (simp_all add: getTokensOut_Big)
  show "getTokensIn ?m A B amount = getAmountIn x y amount"
    "getTokensIn ?m B A amount = getAmountIn y x amount"
    using g by (simp_all add: getTokensIn_Big)
qed

theorem token_balances_invariant_witness:
  "own_keys (tokenBalances (after_calls (UniswappyV2EthPair ''P'' [''A'', ''B''] [])
      [[Big 5], [Big 7, Big 9, Big 0]])) = {''A'', ''B''}
   \<and> receiveDirectly (after_calls (UniswappyV2EthPair ''P'' [''A'', ''B''] [])
      [[Big 5], [Big 7, Big 9, Big 0]]) ''B''
   \<and> \<not> receiveDirectly (after_calls (UniswappyV2EthPair ''P'' [''A'', ''B''] [])
      [[Big 5], [Big 7, Big 9, Big 0]]) ''C''
   \<and> getBalance (after_calls (UniswappyV2EthPair ''P'' [''A'', ''B''] [])
      [[Big 5], [Big 7, Big 9, Big 0]]) ''B'' = Inr (Big 9)
   \<and> getTokensOut (after_calls (UniswappyV2EthPair ''P'' [''A'', ''B''] [])
      [[Big 5], [Big 7, Big 9, Big 0]]) ''A'' ''B'' 1000 = Inr 8"
  using token_balances_invariant [of "''A''" "''B''" "''P''" "[]" "[[Big 5], [Big 7, Big 9, Big 0]]" 7 9 1000]
  by (simp add: Object_prototype_names_def getAmountOut_nonneg_eq)

subsection \<open>Swap calldata\<close>







section \<open>Properties of reserve synchronization\<close>

lemma updateReserves_loop_enough:
  "length ms \<le> length rs \<Longrightarrow>
     updateReserves_loop ms rs =
       (map2 (\<lambda>m r. setReservesViaOrderedBalances m [js_idx r 0, js_idx r 1]) ms rs, None)"
  by (induction ms rs rule: updateReserves_loop.induct) simp_all

lemma updateReserves_loop_short:
  "length rs < length ms \<Longrightarrow>
     updateReserves_loop ms rs =
       (map2 (\<lambda>m r. setReservesViaOrderedBalances m [js_idx r 0, js_idx r 1]) ms rs
          @ drop (length rs) ms, Some TypeError)"
  by (induction ms rs rule: updateReserves_loop.induct) simp_all

text \<open>
  C6 claims a mismatch error whenever the answer and the request differ in length. The
  loop compares no lengths. A longer answer is used up to the number of markets and the
  call succeeds; a shorter answer is applied to the leading markets before the first
  missing entry throws a TypeError.
\<close>

theorem updateReserves_mismatch_counterexample:
  "updateReserves (\<lambda>addresses. [[7, 9, 0], [1, 2, 0]]) [UniswappyV2EthPair ''P'' [''A'', ''B''] []]
     = ([\<lparr>marketAddress = ''P'', tokens = [''A'', ''B''], protocol = [],
           tokenBalances = [(''A'', Big 7), (''B'', Big 9)]\<rparr>], None)
   \<and> updateReserves (\<lambda>addresses. [[7, 9, 0]])
       [UniswappyV2EthPair ''P'' [''A'', ''B''] [], UniswappyV2EthPair ''Q'' [''A'', ''C''] []]
     = ([\<lparr>marketAddress = ''P'', tokens = [''A'', ''B''], protocol = [],
           tokenBalances = [(''A'', Big 7), (''B'', Big 9)]\<rparr>,
         \<lparr>marketAddress = ''Q'', tokens = [''A'', ''C''], protocol = [],
           tokenBalances = [(''A'', Big 0), (''C'', Big 0)]\<rparr>], Some TypeError)"
  by (simp add: updateReserves_def setReservesViaOrderedBalances_def
      setReservesViaMatchingArray_def UniswappyV2EthPair_def zipObject_def isEqual_def
      own_keys_def js_idx_def)

text \<open>
  C6, amended: \<open>updateReserves\<close> makes one batched request for the addresses of the
  markets in order and applies the answer by position without comparing lengths. If the
  answer has at least as many entries as there are markets, the call succeeds, market
  \<open>i\<close> receiving the first two values of entry \<open>i\<close> and surplus entries being ignored.
  If the answer is shorter, the call fails with a TypeError after the leading markets
  have received their entries; the remaining markets are unchanged.
\<close>

theorem updateReserves_positional:
  "(length ms \<le> length (getReservesByPairs (map marketAddress ms))
      \<longrightarrow> updateReserves getReservesByPairs ms =
            (map2 (\<lambda>m r. setReservesViaOrderedBalances m [js_idx r 0, js_idx r 1])
               ms (getReservesByPairs (map marketAddress ms)), None))
   \<and> (length (getReservesByPairs (map marketAddress ms)) < length ms
      \<longrightarrow> updateReserves getReservesByPairs ms =
            (map2 (\<lambda>m r. setReservesViaOrderedBalances m [js_idx r 0, js_idx r 1])
               ms (getReservesByPairs (map marketAddress ms))
             @ drop (length (getReservesByPairs (map marketAddress ms))) ms, Some TypeError))"
  by (simp add: updateReserves_def updateReserves_loop_enough updateReserves_loop_short)

theorem updateReserves_positional_witness:
  "updateReserves (\<lambda>addresses. map (\<lambda>a. if a = ''P'' then [7, 9, 0] else [1, 2, 0]) addresses)
       [UniswappyV2EthPair ''P'' [''A'', ''B''] [], UniswappyV2EthPair ''Q'' [''A'', ''C''] []]
     = ([\<lparr>marketAddress = ''P'', tokens = [''A'', ''B''], protocol = [],
           tokenBalances = [(''A'', Big 7), (''B'', Big 9)]\<rparr>,
         \<lparr>marketAddress = ''Q'', tokens = [''A'', ''C''], protocol = [],
           tokenBalances = [(''A'', Big 1), (''C'', Big 2)]\<rparr>], None)
   \<and> updateReserves (\<lambda>addresses. [])
       [UniswappyV2EthPair ''P'' [''A'', ''B''] []]
     = ([UniswappyV2EthPair ''P'' [''A'', ''B''] []], Some TypeError)"
  using updateReserves_positional [of
      "[UniswappyV2EthPair ''P'' [''A'', ''B''] [], UniswappyV2EthPair ''Q'' [''A'', ''C''] []]"
      "\<lambda>addresses. map (\<lambda>a. if a = ''P'' then [7, 9, 0] else [1, 2, 0]) addresses"]
    updateReserves_positional [of "[UniswappyV2EthPair ''P'' [''A'', ''B''] []]" "\<lambda>addresses. []"]
  by (simp add: setReservesViaOrderedBalances_def
      setReservesViaMatchingArray_def UniswappyV2EthPair_def zipObject_def isEqual_def
      own_keys_def js_idx_def)

section \<open>Properties of discovery\<close>

lemma discover_loop_done:
  "\<not> i < limit * bsize \<Longrightarrow> discover_loop limit bsize q weth i ms fs = (ms, fs)"
  by (subst discover_loop.simps) simp

lemma discover_loop_short:
  "i < limit * bsize \<Longrightarrow> length (q i (i + bsize)) < bsize \<Longrightarrow>
     discover_loop limit bsize q weth i ms fs =
       (ms @ List.map_filter (pair_market weth) (q i (i + bsize)), fs @ [i])"
  by (subst discover_loop.simps) (simp add: Let_def)

lemma discover_loop_full:
  "i < limit * bsize \<Longrightarrow> \<not> length (q i (i + bsize)) < bsize \<Longrightarrow>
     discover_loop limit bsize q weth i ms fs =
       discover_loop limit bsize q weth (i + bsize)
         (ms @ List.map_filter (pair_market weth) (q i (i + bsize))) (fs @ [i])"
  by (subst discover_loop.simps) (simp add: Let_def)

lemma discover_loop_fetched:
  "snd (discover_loop limit bsize q weth i ms fs) = fs @ trace_from limit bsize q weth i"
proof (induction "limit * bsize - i" arbitrary: i ms fs rule: less_induct)
  case less
  show ?case
  proof (cases "i < limit * bsize")
    case False
    then show ?thesis
      by (simp add: trace_from_def discover_loop_done)
  next
    case True
    then have b: "0 < bsize" by (cases bsize) simp_all
    show ?thesis
    proof (cases "length (q i (i + bsize)) < bsize")
      case short: True
      with True show ?thesis
        by (simp add: trace_from_def discover_loop_short)
    next
      case full: False
      from True b have dec: "limit * bsize - (i + bsize) < limit * bsize - i"
        by simp
      have "snd (discover_loop limit bsize q weth i ms fs) =
          snd (discover_loop limit bsize q weth (i + bsize)
                 (ms @ List.map_filter (pair_market weth) (q i (i + bsize))) (fs @ [i]))"
        using True full by (simp add: discover_loop_full)
      also have "\<dots> = (fs @ [i]) @ trace_from limit bsize q weth (i + bsize)"
        using dec by (rule less)
      finally have lhs: "snd (discover_loop limit bsize q weth i ms fs) =
          fs @ i # trace_from limit bsize q weth (i + bsize)"
        by simp
      have "trace_from limit bsize q weth i =
          snd (discover_loop limit bsize q weth (i + bsize)
                 ([] @ List.map_filter (pair_market weth) (q i (i + bsize))) ([] @ [i]))"
        unfolding trace_from_def using True full by (simp add: discover_loop_full)
      also have "\<dots> = ([] @ [i]) @ trace_from limit bsize q weth (i + bsize)"
        using dec by (rule less)
      finally show ?thesis
        using lhs by simp
    qed
  qed
qed

lemma trace_from_rec:
  "trace_from limit bsize q weth i =
     (if i < limit * bsize then
        (if length (q i (i + bsize)) < bsize then [i]
         else i # trace_from limit bsize q weth (i + bsize))
      else [])"
proof -
  have "trace_from limit bsize q weth i = snd (discover_loop limit bsize q weth i [] [])"
    by (simp add: trace_from_def)
  also have "\<dots> =
     (if i < limit * bsize then
        (if length (q i (i + bsize)) < bsize then [i]
         else snd (discover_loop limit bsize q weth (i + bsize)
                ([] @ List.map_filter (pair_market weth) (q i (i + bsize))) ([] @ [i])))
      else [])"
    by (subst discover_loop.simps) (simp add: Let_def)
  finally show ?thesis
    by (simp add: discover_loop_fetched)
qed

lemma trace_from_done: "\<not> i < limit * bsize \<Longrightarrow> trace_from limit bsize q weth i = []"
  by (subst trace_from_rec) simp

lemma trace_from_short:
  "i < limit * bsize \<Longrightarrow> length (q i (i + bsize)) < bsize \<Longrightarrow> trace_from limit bsize q weth i = [i]"
  by (subst trace_from_rec) simp

lemma trace_from_full:
  "i < limit * bsize \<Longrightarrow> \<not> length (q i (i + bsize)) < bsize \<Longrightarrow>
     trace_from limit bsize q weth i = i # trace_from limit bsize q weth (i + bsize)"
  by (subst trace_from_rec) simp

lemma trace_from_cases [consumes 0, case_names finished short full]:
  assumes "\<not> i < limit * bsize \<Longrightarrow> trace_from limit bsize q weth i = [] \<Longrightarrow> P"
    and "i < limit * bsize \<Longrightarrow> length (q i (i + bsize)) < bsize \<Longrightarrow>
           trace_from limit bsize q weth i = [i] \<Longrightarrow> P"
    and "i < limit * bsize \<Longrightarrow> \<not> length (q i (i + bsize)) < bsize \<Longrightarrow> 0 < bsize \<Longrightarrow>
           limit * bsize - (i + bsize) < limit * bsize - i \<Longrightarrow>
           trace_from limit bsize q weth i = i # trace_from limit bsize q weth (i + bsize) \<Longrightarrow> P"
  shows P
proof (cases "i < limit * bsize")
  case False
  then show P by (intro assms(1) trace_from_done)
next
  case True
  then have b: "0 < bsize" by (cases bsize) simp_all
  show P
  proof (cases "length (q i (i + bsize)) < bsize")
    case True
    with \<open>i < limit * bsize\<close> show P by (intro assms(2) trace_from_short)
  next
    case False
    from \<open>i < limit * bsize\<close> b have "limit * bsize - (i + bsize) < limit * bsize - i" by simp
    with \<open>i < limit * bsize\<close> False b show P by (intro assms(3) trace_from_full)
  qed
qed

lemma trace_from_arith:
  "trace_from limit bsize q weth i =
     map (\<lambda>j. i + j * bsize) [0..<length (trace_from limit bsize q weth i)]"
proof (induction "limit * bsize - i" arbitrary: i rule: less_induct)
  case less
  show ?case
  proof (cases rule: trace_from_cases [of i limit bsize q weth])
    case finished
    then show ?thesis by simp
  next
    case short
    then show ?thesis by simp
  next
    case full
    have "trace_from limit bsize q weth (i + bsize) =
        map (\<lambda>j. i + bsize + j * bsize) [0..<length (trace_from limit bsize q weth (i + bsize))]"
      using full(4) by (rule less)
    moreover have "map (\<lambda>j. i + j * bsize) [0..<Suc n] =
        i # map (\<lambda>j. i + bsize + j * bsize) [0..<n]" for n
      by (simp add: map_upt_Suc del: upt_Suc)
    ultimately have "i # trace_from limit bsize q weth (i + bsize) =
        map (\<lambda>j. i + j * bsize) [0..<Suc (length (trace_from limit bsize q weth (i + bsize)))]"
      by simp
    with full(5) show ?thesis by simp
  qed
qed

lemma trace_from_bound:
  "x \<in> set (trace_from limit bsize q weth i) \<Longrightarrow> x < limit * bsize"
proof (induction "limit * bsize - i" arbitrary: i rule: less_induct)
  case less
  show ?case
  proof (cases rule: trace_from_cases [of i limit bsize q weth])
    case finished
    with less.prems show ?thesis by simp
  next
    case short
    with less.prems show ?thesis by simp
  next
    case full
    with less.prems have "x = i \<or> x \<in> set (trace_from limit bsize q weth (i + bsize))"
      by simp
    then show ?thesis
    proof
      assume "x = i"
      with full(1) show ?thesis by simp
    next
      assume "x \<in> set (trace_from limit bsize q weth (i + bsize))"
      with full(4) show ?thesis by (rule less.hyps)
    qed
  qed
qed

lemma trace_from_inner_full:
  "Suc j < length (trace_from limit bsize q weth i) \<Longrightarrow>
     \<not> length (q (i + j * bsize) (i + j * bsize + bsize)) < bsize"
proof (induction "limit * bsize - i" arbitrary: i j rule: less_induct)
  case less
  show ?case
  proof (cases rule: trace_from_cases [of i limit bsize q weth])
    case finished
    with less.prems show ?thesis by simp
  next
    case short
    with less.prems show ?thesis by simp
  next
    case full
    show ?thesis
    proof (cases j)
      case 0
      with full(2) show ?thesis by simp
    next
      case (Suc j')
      with less.prems full(5) have "Suc j' < length (trace_from limit bsize q weth (i + bsize))"
        by simp
      with full(4) have "\<not> length (q (i + bsize + j' * bsize) (i + bsize + j' * bsize + bsize)) < bsize"
        by (rule less.hyps)
      with Suc show ?thesis by (simp add: add.assoc add.commute add.left_commute)
    qed
  qed
qed

lemma trace_from_nonempty:
  "i < limit * bsize \<Longrightarrow> trace_from limit bsize q weth i \<noteq> []"
  by (cases rule: trace_from_cases [of i limit bsize q weth]) simp_all

lemma trace_from_last_short:
  "trace_from limit bsize q weth i \<noteq> [] \<Longrightarrow>
   last (trace_from limit bsize q weth i) + bsize < limit * bsize \<Longrightarrow>
     length (q (last (trace_from limit bsize q weth i))
               (last (trace_from limit bsize q weth i) + bsize)) < bsize"
proof (induction "limit * bsize - i" arbitrary: i rule: less_induct)
  case less
  show ?case
  proof (cases rule: trace_from_cases [of i limit bsize q weth])
    case finished
    with less.prems show ?thesis by simp
  next
    case short
    then show ?thesis by simp
  next
    case full
    show ?thesis
    proof (cases "trace_from limit bsize q weth (i + bsize) = []")
      case True
      with full(5) less.prems(2) have "i + bsize < limit * bsize" by simp
      then have "trace_from limit bsize q weth (i + bsize) \<noteq> []"
        by (rule trace_from_nonempty)
      with True show ?thesis by simp
    next
      case False
      with full(5) have l: "last (trace_from limit bsize q weth i) =
          last (trace_from limit bsize q weth (i + bsize))"
        by simp
      from less.hyps [OF full(4) False] less.prems(2) l show ?thesis
        by simp
    qed
  qed
qed

text \<open>
  The pages read by a whole run, for any batch count \<open>limit\<close> and batch size \<open>bsize\<close>
  that are positive.
\<close>

lemma discover_pagination:
  fixes limit bsize :: nat and q :: "nat \<Rightarrow> nat \<Rightarrow> raw_pair list" and weth :: string
  assumes "0 < limit" "0 < bsize"
  defines "T \<equiv> trace_from limit bsize q weth 0"
  shows "T = map (\<lambda>k. k * bsize) [0..<length T]"
    and "1 \<le> length T" and "length T \<le> limit"
    and "Suc k < length T \<Longrightarrow> \<not> length (q (k * bsize) (k * bsize + bsize)) < bsize"
    and "length T < limit \<Longrightarrow>
           length (q ((length T - 1) * bsize) ((length T - 1) * bsize + bsize)) < bsize"
    and "length (q 0 bsize) < bsize \<Longrightarrow> T = [0]"
proof -
  show a: "T = map (\<lambda>k. k * bsize) [0..<length T]"
    unfolding T_def using trace_from_arith [of limit bsize q weth 0] by simp
  have "T \<noteq> []"
    unfolding T_def using assms(1,2) by (intro trace_from_nonempty) simp
  then show n1: "1 \<le> length T"
    by (cases T) simp_all
  have nth: "T ! j = j * bsize" if "j < length T" for j
  proof -
    have "T ! j = map (\<lambda>k. k * bsize) [0..<length T] ! j" using a by simp
    also have "\<dots> = j * bsize" using that by simp
    finally show ?thesis .
  qed
  have lastT: "last T = (length T - 1) * bsize"
    using \<open>T \<noteq> []\<close> n1 by (simp add: last_conv_nth nth)
  have "last T \<in> set T" using \<open>T \<noteq> []\<close> by simp
  then have "last T < limit * bsize"
    unfolding T_def by (rule trace_from_bound)
  with lastT assms(2) have "length T - 1 < limit" by simp
  then show "length T \<le> limit" by simp
  {
    assume "Suc k < length T"
    then show "\<not> length (q (k * bsize) (k * bsize + bsize)) < bsize"
      unfolding T_def using trace_from_inner_full [of k limit bsize q weth 0] by simp
  }
  {
    assume lt: "length T < limit"
    have "(length T - 1) * bsize + bsize = length T * bsize"
      using n1 by (cases "length T") simp_all
    with lt assms(2) have "last T + bsize < limit * bsize"
      by (simp add: lastT)
    with \<open>T \<noteq> []\<close> have "length (q (last T) (last T + bsize)) < bsize"
      unfolding T_def by (intro trace_from_last_short)
    then show "length (q ((length T - 1) * bsize) ((length T - 1) * bsize + bsize)) < bsize"
      by (simp add: lastT)
  }
  {
    assume "length (q 0 bsize) < bsize"
    with assms(1,2) show "T = [0]"
      unfolding T_def by (intro trace_from_short) simp_all
  }
qed

lemma pages_fetched_trace_from:
  "pages_fetched q weth = trace_from BATCH_COUNT_LIMIT UNISWAP_BATCH_SIZE q weth 0"
  by (simp add: pages_fetched_def getUniswappyMarkets_trace_def trace_from_def)

text \<open>
  C7: \<open>getUniswappyMarkets\<close> requests the pages \<open>0, 1, 2, \<dots>\<close> in order, at least one
  and at most \<open>BATCH_COUNT_LIMIT\<close>; every page before the last one read was full; and if
  fewer than \<open>BATCH_COUNT_LIMIT\<close> pages were read, the last one was short. So it stops
  exactly at the first short page or at the batch count limit. In particular, if the
  first page is short, exactly that one page is read.
\<close>

theorem getUniswappyMarkets_pagination:
  "pages_fetched q weth
     = map (\<lambda>k. k * UNISWAP_BATCH_SIZE) [0..<length (pages_fetched q weth)]
   \<and> 1 \<le> length (pages_fetched q weth)
   \<and> length (pages_fetched q weth) \<le> BATCH_COUNT_LIMIT
   \<and> (\<forall>k. Suc k < length (pages_fetched q weth) \<longrightarrow> \<not> short_page q k)
   \<and> (length (pages_fetched q weth) < BATCH_COUNT_LIMIT
        \<longrightarrow> short_page q (length (pages_fetched q weth) - 1))
   \<and> (short_page q 0 \<longrightarrow> pages_fetched q weth = [0])"
proof -
  have pos: "0 < BATCH_COUNT_LIMIT" "0 < UNISWAP_BATCH_SIZE"
    by (simp_all add: BATCH_COUNT_LIMIT_def UNISWAP_BATCH_SIZE_def)
  note p = discover_pagination [OF pos, where q = q and weth = weth, folded pages_fetched_trace_from]
  have "short_page q 0 \<longrightarrow> pages_fetched q weth = [0]"
    using p(6) by (simp add: short_page_def)
  with p(1,2,3) p(4) p(5) show ?thesis
    unfolding short_page_def by blast
qed

theorem getUniswappyMarkets_pagination_witness:
  "pages_fetched (\<lambda>i j. [(''W'', ''T'', ''P'')]) ''W'' = [0]
   \<and> pages_fetched (\<lambda>i j. if i = 0 then replicate 1000 (''W'', ''T'', ''P'') else []) ''W''
       = [0, 1000]"
proof -
  let ?q = "\<lambda>(i::nat) j::nat. if i = 0 then replicate 1000 (''W'', ''T'', ''P'') else []"
  let ?n = "length (pages_fetched ?q ''W'')"
  have one: "pages_fetched (\<lambda>i j. [(''W'', ''T'', ''P'')]) ''W'' = [0]"
    using getUniswappyMarkets_pagination [of "\<lambda>i j. [(''W'', ''T'', ''P'')]" "''W''"]
    by (simp add: short_page_def UNISWAP_BATCH_SIZE_def)
  have full0: "\<not> short_page ?q 0" and short1: "short_page ?q 1"
    by (simp_all add: short_page_def UNISWAP_BATCH_SIZE_def)
  note t = getUniswappyMarkets_pagination [of ?q "''W''"]
  from t have "?n \<noteq> 1"
    using full0 by (auto simp: BATCH_COUNT_LIMIT_def)
  moreover from t have "1 \<le> ?n" by blast
  moreover have "\<not> Suc 1 < ?n"
    using t short1 by blast
  ultimately have "?n = 2" by linarith
  with t have "pages_fetched ?q ''W'' = map (\<lambda>k. k * UNISWAP_BATCH_SIZE) [0..<2]"
    by metis
  then have "pages_fetched ?q ''W'' = [0, 1000]"
    by (simp add: UNISWAP_BATCH_SIZE_def upt_rec)
  with one show ?thesis by simp
qed

section \<open>Properties of grouping\<close>

lemma map_of_groupBy_from:
  "map_of (groupBy_from f xs acc) k =
     (case map_of acc k of
        Some g \<Rightarrow> Some (g @ filter (\<lambda>x. f x = k) xs)
      | None \<Rightarrow> if k \<in> f ` set xs then Some (filter (\<lambda>x. f x = k) xs) else None)"
proof (induction xs arbitrary: acc)
  case Nil
  show ?case by (simp split: option.split)
next
  case (Cons x xs)
  show ?case
  proof (cases "map_of acc (f x)")
    case None
    then show ?thesis
      by (cases "f x = k") (simp_all add: Cons map_add_def split: option.split)
  next
    case (Some g)
    then show ?thesis
      by (simp add: Cons update_conv' split: option.split)
  qed
qed

lemma map_of_groupBy:
  "map_of (groupBy f xs) k =
     (if k \<in> f ` set xs then Some (filter (\<lambda>x. f x = k) xs) else None)"
  by (simp add: groupBy_def map_of_groupBy_from)

lemma distinct_groupBy_from:
  "distinct (map fst acc) \<Longrightarrow> distinct (map fst (groupBy_from f xs acc))"
proof (induction xs arbitrary: acc)
  case Nil
  then show ?case by simp
next
  case (Cons x xs)
  show ?case
  proof (cases "map_of acc (f x)")
    case None
    then have "f x \<notin> fst ` set acc"
      by (simp add: map_of_eq_None_iff)
    with Cons.prems have "distinct (map fst (acc @ [(f x, [x])]))"
      by simp
    then have "distinct (map fst (groupBy_from f xs (acc @ [(f x, [x])])))"
      by (rule Cons.IH)
    with None show ?thesis by simp
  next
    case (Some g)
    from Cons.prems have "distinct (map fst (AList.update (f x) (g @ [x]) acc))"
      by (simp add: distinct_update)
    then have "distinct (map fst (groupBy_from f xs (AList.update (f x) (g @ [x]) acc)))"
      by (rule Cons.IH)
    with Some show ?thesis by simp
  qed
qed

lemma distinct_groupBy: "distinct (map fst (groupBy f xs))"
  by (simp add: groupBy_def distinct_groupBy_from)

lemma groupBy_member:
  assumes "(k, g) \<in> set (groupBy f xs)"
  shows "g = filter (\<lambda>x. f x = k) xs"
proof -
  from assms have "map_of (groupBy f xs) k = Some g"
    by (simp add: distinct_groupBy)
  then show ?thesis
    by (simp add: map_of_groupBy split: if_splits)
qed

lemma filter_concat_groups:
  assumes "distinct (map fst G)"
    and "\<And>k' g x. (k', g) \<in> set G \<Longrightarrow> x \<in> set g \<Longrightarrow> f x = k'"
  shows "filter (\<lambda>x. f x = k) (concat (map snd (filter P G))) =
           (case map_of G k of Some g \<Rightarrow> if P (k, g) then g else [] | None \<Rightarrow> [])"
  using assms
proof (induction G)
  case Nil
  show ?case by simp
next
  case (Cons e G)
  obtain k' g where e: "e = (k', g)" by (cases e)
  have IH: "filter (\<lambda>x. f x = k) (concat (map snd (filter P G))) =
           (case map_of G k of Some g \<Rightarrow> if P (k, g) then g else [] | None \<Rightarrow> [])"
    using Cons.prems by (intro Cons.IH) auto
  have own: "\<And>x. x \<in> set g \<Longrightarrow> f x = k'"
    using Cons.prems(2) [of k' g] e by simp
  show ?case
  proof (cases "k' = k")
    case True
    with Cons.prems(1) e have "k \<notin> fst ` set G" by simp
    then have "map_of G k = None" by (simp add: map_of_eq_None_iff)
    moreover have "filter (\<lambda>x. f x = k) g = g"
      using own True by (simp add: filter_id_conv)
    ultimately show ?thesis
      using IH e True by simp
  next
    case False
    have "filter (\<lambda>x. f x = k) g = []"
      using own False by (auto simp: filter_empty_conv)
    with IH e False show ?thesis by simp
  qed
qed

lemma firstPass_groups:
  "filter (\<lambda>m. nonQuoteToken weth m = k) (firstPass weth flat) =
     (if 1 < length (filter (\<lambda>m. nonQuoteToken weth m = k) flat)
      then filter (\<lambda>m. nonQuoteToken weth m = k) flat else [])"
proof -
  have "filter (\<lambda>m. nonQuoteToken weth m = k) (firstPass weth flat) =
      (case map_of (groupBy (nonQuoteToken weth) flat) k of
         Some g \<Rightarrow> if (\<lambda>(k, a). 1 < length a) (k, g) then g else []
       | None \<Rightarrow> [])"
    unfolding firstPass_def Let_def
  proof (rule filter_concat_groups)
    show "distinct (map fst (groupBy (nonQuoteToken weth) flat))"
      by (rule distinct_groupBy)
    fix k' g x
    assume "(k', g) \<in> set (groupBy (nonQuoteToken weth) flat)" and "x \<in> set g"
    then show "nonQuoteToken weth x = k'"
      by (auto dest: groupBy_member)
  qed
  also have "\<dots> = (if 1 < length (filter (\<lambda>m. nonQuoteToken weth m = k) flat)
      then filter (\<lambda>m. nonQuoteToken weth m = k) flat else [])"
  proof (cases "k \<in> nonQuoteToken weth ` set flat")
    case True
    then show ?thesis by (simp add: map_of_groupBy)
  next
    case False
    then have "filter (\<lambda>m. nonQuoteToken weth m = k) flat = []"
      by (auto simp: filter_empty_conv)
    with False show ?thesis by (simp add: map_of_groupBy)
  qed
  finally show ?thesis .
qed

lemma firstPass_subset: "set (firstPass weth flat) \<subseteq> set flat"
proof
  fix m
  assume "m \<in> set (firstPass weth flat)"
  then have "m \<in> set (filter (\<lambda>x. nonQuoteToken weth x = nonQuoteToken weth m) (firstPass weth flat))"
    by simp
  then show "m \<in> set flat"
    unfolding firstPass_groups by (simp split: if_splits)
qed

lemma pair_market_shape:
  "pair_market weth pair = Some m \<Longrightarrow>
     \<exists>addr p0 p1. m = UniswappyV2EthPair addr [p0, p1] [] \<and> (p0 = weth \<or> p1 = weth)"
  by (cases pair) (auto simp: pair_market_def split: if_splits)

lemma discover_loop_markets:
  "m \<in> set (fst (discover_loop limit bsize q weth i ms fs)) \<Longrightarrow>
     m \<in> set ms \<or> (\<exists>pair. pair_market weth pair = Some m)"
proof (induction "limit * bsize - i" arbitrary: i ms fs rule: less_induct)
  case less
  show ?case
  proof (cases "i < limit * bsize")
    case False
    with less.prems show ?thesis
      by (simp add: discover_loop_done)
  next
    case True
    then have b: "0 < bsize" by (cases bsize) simp_all
    let ?ms' = "ms @ List.map_filter (pair_market weth) (q i (i + bsize))"
    have new: "m \<in> set ?ms' \<Longrightarrow> m \<in> set ms \<or> (\<exists>pair. pair_market weth pair = Some m)"
      by (auto simp: List.map_filter_def)
    show ?thesis
    proof (cases "length (q i (i + bsize)) < bsize")
      case short: True
      with True less.prems have "m \<in> set ?ms'"
        by (simp add: discover_loop_short)
      then show ?thesis by (rule new)
    next
      case full: False
      from True b have dec: "limit * bsize - (i + bsize) < limit * bsize - i"
        by simp
      from True full less.prems
      have "m \<in> set (fst (discover_loop limit bsize q weth (i + bsize) ?ms' (fs @ [i])))"
        by (simp add: discover_loop_full)
      with dec have "m \<in> set ?ms' \<or> (\<exists>pair. pair_market weth pair = Some m)"
        by (rule less.hyps)
      with new show ?thesis by blast
    qed
  qed
qed

lemma discovered_shape:
  assumes "m \<in> set (discovered registries weth)"
  shows "\<exists>addr p0 p1. m = UniswappyV2EthPair addr [p0, p1] [] \<and> (p0 = weth \<or> p1 = weth)"
proof -
  from assms obtain q where "m \<in> set (getUniswappyMarkets q weth)"
    by (auto simp: discovered_def)
  then have "m \<in> set (fst (discover_loop BATCH_COUNT_LIMIT UNISWAP_BATCH_SIZE q weth 0 [] []))"
    by (simp add: getUniswappyMarkets_def getUniswappyMarkets_trace_def)
  then have "m \<in> set [] \<or> (\<exists>pair. pair_market weth pair = Some m)"
    by (rule discover_loop_markets)
  then have "\<exists>pair. pair_market weth pair = Some m"
    by simp
  then show ?thesis
    by (auto dest: pair_market_shape)
qed

lemma synced_weth_balance:
  assumes "tokens m = [p0, p1]" "p0 = weth \<or> p1 = weth" "2 \<le> length r"
  shows "\<exists>b. getBalance (setReservesViaOrderedBalances m [js_idx r 0, js_idx r 1]) weth = Inr (Big b)"
proof -
  from assms(3) have "0 < length r" "1 < length r"
    by linarith+
  then have r: "js_idx r 0 = Big (r ! 0)" "js_idx r 1 = Big (r ! 1)"
    by (simp_all add: js_idx_def)
  have "\<exists>b. js_get (zipObject [p0, p1] [Big (r ! 0), Big (r ! 1)]) weth = Big b"
    using assms(2) by (auto simp: zipObject_def js_get_def)
  then obtain b where "js_get (zipObject [p0, p1] [Big (r ! 0), Big (r ! 1)]) weth = Big b" ..
  then have "js_get (tokenBalances (setReservesViaOrderedBalances m [js_idx r 0, js_idx r 1])) weth
      = Big b"
    by (simp only: setReserves_js_get assms(1) r)
  then have "getBalance (setReservesViaOrderedBalances m [js_idx r 0, js_idx r 1]) weth = Inr (Big b)"
    by (simp add: getBalance_def)
  then show ?thesis ..
qed

lemma filter_liquid_ok:
  "(\<And>m. m \<in> set ms \<Longrightarrow> \<exists>b. getBalance m weth = Inr (Big b)) \<Longrightarrow>
     filter_liquid weth ms = Inr (filter (is_liquid weth) ms)"
proof (induction ms)
  case Nil
  show ?case by simp
next
  case (Cons m ms)
  from Cons.prems obtain b where b: "getBalance m weth = Inr (Big b)"
    by auto
  have "filter_liquid weth ms = Inr (filter (is_liquid weth) ms)"
    using Cons.prems by (intro Cons.IH) simp
  moreover from b have "is_liquid weth m = (ETHER < b)"
    by (simp add: is_liquid_def)
  ultimately show ?case
    using b by simp
qed

lemma getUniswapMarketsByToken_synced:
  fixes registries getReservesByPairs weth
  defines "sel \<equiv> firstPass weth (discovered registries weth)"
  defines "synced \<equiv> map2 (\<lambda>m r. setReservesViaOrderedBalances m [js_idx r 0, js_idx r 1])
                       sel (getReservesByPairs (map marketAddress sel))"
  assumes len: "length sel \<le> length (getReservesByPairs (map marketAddress sel))"
    and two: "\<And>r. r \<in> set (getReservesByPairs (map marketAddress sel)) \<Longrightarrow> 2 \<le> length r"
  shows "getUniswapMarketsByToken registries getReservesByPairs weth =
           Inr \<lparr>marketsByToken = groupBy (nonQuoteToken weth) (filter (is_liquid weth) synced),
                allMarketPairs = synced\<rparr>"
proof -
  have upd: "updateReserves getReservesByPairs sel = (synced, None)"
    using len by (simp add: updateReserves_def updateReserves_loop_enough synced_def)
  have "\<exists>b. getBalance m' weth = Inr (Big b)" if "m' \<in> set synced" for m'
  proof -
    from that obtain m r where mr: "(m, r) \<in> set (zip sel (getReservesByPairs (map marketAddress sel)))"
      and m': "m' = setReservesViaOrderedBalances m [js_idx r 0, js_idx r 1]"
      by (auto simp: synced_def)
    from mr have "m \<in> set sel" and r: "r \<in> set (getReservesByPairs (map marketAddress sel))"
      by (auto dest: set_zip_leftD set_zip_rightD)
    then have "m \<in> set (discovered registries weth)"
      using firstPass_subset [of weth "discovered registries weth"] by (auto simp: sel_def)
    then obtain addr p0 p1 where "m = UniswappyV2EthPair addr [p0, p1] []" and w: "p0 = weth \<or> p1 = weth"
      by (auto dest: discovered_shape)
    then have "tokens m = [p0, p1]"
      by (simp add: UniswappyV2EthPair_def)
    then show ?thesis
      unfolding m' using w two [OF r] by (rule synced_weth_balance)
  qed
  then have "filter_liquid weth synced = Inr (filter (is_liquid weth) synced)"
    by (rule filter_liquid_ok)
  with upd show ?thesis
    by (simp add: getUniswapMarketsByToken_def Let_def discovered_def [symmetric] sel_def [symmetric])
qed

text \<open>
  C8: in pass one, for every asset \<open>k\<close> the markets of \<open>k\<close> among those selected are all
  the discovered markets of \<open>k\<close> if there are at least two, and none otherwise. When the
  reserves answer covers the selected markets (two values per entry), the call returns:
  \<open>allMarketPairs\<close> are the selected markets with their reserves set, and
  \<open>marketsByToken\<close> groups, by non-quote asset, exactly those of them whose quote-asset
  balance exceeds \<open>ETHER\<close>; a market at or below it is in no group, and if no market
  exceeds it the index is empty.
\<close>

theorem getUniswapMarketsByToken_two_pass:
  "(\<forall>k. filter (\<lambda>m. nonQuoteToken weth m = k) (firstPass weth (discovered registries weth)) =
         (if 1 < length (filter (\<lambda>m. nonQuoteToken weth m = k) (discovered registries weth))
          then filter (\<lambda>m. nonQuoteToken weth m = k) (discovered registries weth) else []))
   \<and> (\<forall>m. is_liquid weth m = (\<exists>b. getBalance m weth = Inr (Big b) \<and> ETHER < b))
   \<and> (length (firstPass weth (discovered registries weth))
         \<le> length (getReservesByPairs (map marketAddress (firstPass weth (discovered registries weth))))
       \<and> (\<forall>r \<in> set (getReservesByPairs (map marketAddress (firstPass weth (discovered registries weth)))).
             2 \<le> length r)
      \<longrightarrow> (\<exists>res. getUniswapMarketsByToken registries getReservesByPairs weth = Inr res
            \<and> allMarketPairs res =
                map2 (\<lambda>m r. setReservesViaOrderedBalances m [js_idx r 0, js_idx r 1])
                  (firstPass weth (discovered registries weth))
                  (getReservesByPairs (map marketAddress (firstPass weth (discovered registries weth))))
            \<and> marketsByToken res =
                groupBy (nonQuoteToken weth) (filter (is_liquid weth) (allMarketPairs res))
            \<and> (\<forall>k. map_of (marketsByToken res) k =
                  (if \<exists>m \<in> set (allMarketPairs res). is_liquid weth m \<and> nonQuoteToken weth m = k
                   then Some (filter (\<lambda>m. nonQuoteToken weth m = k)
                                (filter (is_liquid weth) (allMarketPairs res)))
                   else None))
            \<and> ((\<forall>m \<in> set (allMarketPairs res). \<not> is_liquid weth m) \<longrightarrow> marketsByToken res = [])))"
proof (intro conjI allI impI)
  show "filter (\<lambda>m. nonQuoteToken weth m = k) (firstPass weth (discovered registries weth)) =
         (if 1 < length (filter (\<lambda>m. nonQuoteToken weth m = k) (discovered registries weth))
          then filter (\<lambda>m. nonQuoteToken weth m = k) (discovered registries weth) else [])" for k
    by (rule firstPass_groups)
  show "is_liquid weth m = (\<exists>b. getBalance m weth = Inr (Big b) \<and> ETHER < b)" for m
    by (auto simp: is_liquid_def split: sum.splits jsval.splits)
  let ?sel = "firstPass weth (discovered registries weth)"
  let ?synced = "map2 (\<lambda>m r. setReservesViaOrderedBalances m [js_idx r 0, js_idx r 1])
                   ?sel (getReservesByPairs (map marketAddress ?sel))"
  let ?res = "\<lparr>marketsByToken = groupBy (nonQuoteToken weth) (filter (is_liquid weth) ?synced),
              allMarketPairs = ?synced\<rparr>"
  assume h: "length ?sel \<le> length (getReservesByPairs (map marketAddress ?sel))
       \<and> (\<forall>r \<in> set (getReservesByPairs (map marketAddress ?sel)). 2 \<le> length r)"
  then have ret: "getUniswapMarketsByToken registries getReservesByPairs weth = Inr ?res"
    by (intro getUniswapMarketsByToken_synced) simp_all
  have groups: "map_of (marketsByToken ?res) k =
      (if \<exists>m \<in> set (allMarketPairs ?res). is_liquid weth m \<and> nonQuoteToken weth m = k
       then Some (filter (\<lambda>m. nonQuoteToken weth m = k) (filter (is_liquid weth) (allMarketPairs ?res)))
       else None)" for k
    by (simp add: map_of_groupBy image_iff) blast
  have empty: "(\<forall>m \<in> set (allMarketPairs ?res). \<not> is_liquid weth m) \<longrightarrow> marketsByToken ?res = []"
  proof
    assume "\<forall>m \<in> set (allMarketPairs ?res). \<not> is_liquid weth m"
    then have "filter (is_liquid weth) ?synced = []"
      by (simp add: filter_empty_conv)
    then show "marketsByToken ?res = []"
      by (simp add: groupBy_def)
  qed
  have "getUniswapMarketsByToken registries getReservesByPairs weth = Inr ?res
      \<and> allMarketPairs ?res = ?synced
      \<and> marketsByToken ?res = groupBy (nonQuoteToken weth) (filter (is_liquid weth) (allMarketPairs ?res))
      \<and> (\<forall>k. map_of (marketsByToken ?res) k =
            (if \<exists>m \<in> set (allMarketPairs ?res). is_liquid weth m \<and> nonQuoteToken weth m = k
             then Some (filter (\<lambda>m. nonQuoteToken weth m = k)
                          (filter (is_liquid weth) (allMarketPairs ?res)))
             else None))
      \<and> ((\<forall>m \<in> set (allMarketPairs ?res). \<not> is_liquid weth m) \<longrightarrow> marketsByToken ?res = [])"
    using ret groups empty by simp
  then show "\<exists>res. getUniswapMarketsByToken registries getReservesByPairs weth = Inr res
            \<and> allMarketPairs res = ?synced
            \<and> marketsByToken res =
                groupBy (nonQuoteToken weth) (filter (is_liquid weth) (allMarketPairs res))
            \<and> (\<forall>k. map_of (marketsByToken res) k =
                  (if \<exists>m \<in> set (allMarketPairs res). is_liquid weth m \<and> nonQuoteToken weth m = k
                   then Some (filter (\<lambda>m. nonQuoteToken weth m = k)
                                (filter (is_liquid weth) (allMarketPairs res)))
                   else None))
            \<and> ((\<forall>m \<in> set (allMarketPairs res). \<not> is_liquid weth m) \<longrightarrow> marketsByToken res = [])"
    by (rule exI)
qed

text \<open>
  The example of C8: asset \<open>X\<close> has one market and asset \<open>Y\<close> has three. Pass one
  keeps the three markets of \<open>Y\<close>. With every quote-asset reserve below \<open>ETHER\<close> the
  index is empty; with two of them above it, \<open>Y\<close> keeps these two.
\<close>

theorem getUniswapMarketsByToken_two_pass_witness:
  "getUniswapMarketsByToken
     [\<lambda>i j. if i = 0 then [(''W'', ''X'', ''P1''), (''W'', ''Y'', ''P2''), (''Y'', ''W'', ''P3''),
                            (''W'', ''Y'', ''P4''), (''A'', ''B'', ''P5'')] else []]
     (\<lambda>addresses. map (\<lambda>a. [5, 7, 0]) addresses) ''W''
   = Inr \<lparr>marketsByToken = [],
          allMarketPairs =
            [\<lparr>marketAddress = ''P2'', tokens = [''W'', ''Y''], protocol = [],
               tokenBalances = [(''W'', Big 5), (''Y'', Big 7)]\<rparr>,
             \<lparr>marketAddress = ''P3'', tokens = [''Y'', ''W''], protocol = [],
               tokenBalances = [(''Y'', Big 5), (''W'', Big 7)]\<rparr>,
             \<lparr>marketAddress = ''P4'', tokens = [''W'', ''Y''], protocol = [],
               tokenBalances = [(''W'', Big 5), (''Y'', Big 7)]\<rparr>]\<rparr>
   \<and> getUniswapMarketsByToken
     [\<lambda>i j. if i = 0 then [(''W'', ''X'', ''P1''), (''W'', ''Y'', ''P2''), (''Y'', ''W'', ''P3''),
                            (''W'', ''Y'', ''P4''), (''A'', ''B'', ''P5'')] else []]
     (\<lambda>addresses. map (\<lambda>a. if a = ''P4'' then [1000000000000000000, 7, 0]
                              else [2000000000000000000, 3000000000000000000, 0]) addresses) ''W''
   = Inr \<lparr>marketsByToken =
            [(''Y'',
              [\<lparr>marketAddress = ''P2'', tokens = [''W'', ''Y''], protocol = [],
                 tokenBalances = [(''W'', Big 2000000000000000000), (''Y'', Big 3000000000000000000)]\<rparr>,
               \<lparr>marketAddress = ''P3'', tokens = [''Y'', ''W''], protocol = [],
                 tokenBalances = [(''Y'', Big 2000000000000000000), (''W'', Big 3000000000000000000)]\<rparr>])],
          allMarketPairs =
            [\<lparr>marketAddress = ''P2'', tokens = [''W'', ''Y''], protocol = [],
               tokenBalances = [(''W'', Big 2000000000000000000), (''Y'', Big 3000000000000000000)]\<rparr>,
             \<lparr>marketAddress = ''P3'', tokens = [''Y'', ''W''], protocol = [],
               tokenBalances = [(''Y'', Big 2000000000000000000), (''W'', Big 3000000000000000000)]\<rparr>,
             \<lparr>marketAddress = ''P4'', tokens = [''W'', ''Y''], protocol = [],
               tokenBalances = [(''W'', Big 1000000000000000000), (''Y'', Big 7)]\<rparr>]\<rparr>"
  using getUniswapMarketsByToken_two_pass [of "''W''"
     "[\<lambda>i j. if i = 0 then [(''W'', ''X'', ''P1''), (''W'', ''Y'', ''P2''), (''Y'', ''W'', ''P3''),
                            (''W'', ''Y'', ''P4''), (''A'', ''B'', ''P5'')] else []]"
     "\<lambda>addresses. map (\<lambda>a. [5, 7, 0]) addresses"]
    getUniswapMarketsByToken_two_pass [of "''W''"
     "[\<lambda>i j. if i = 0 then [(''W'', ''X'', ''P1''), (''W'', ''Y'', ''P2''), (''Y'', ''W'', ''P3''),
                            (''W'', ''Y'', ''P4''), (''A'', ''B'', ''P5'')] else []]"
     "\<lambda>addresses. map (\<lambda>a. if a = ''P4'' then [1000000000000000000, 7, 0]
                              else [2000000000000000000, 3000000000000000000, 0]) addresses"]
  by (simp add: getUniswapMarketsByToken_def getUniswappyMarkets_def getUniswappyMarkets_trace_def
      discover_loop_short BATCH_COUNT_LIMIT_def UNISWAP_BATCH_SIZE_def List.map_filter_def
      pair_market_def blacklistTokens_def UniswappyV2EthPair_def zipObject_def firstPass_def
      groupBy_def nonQuoteToken_def str_idx_def updateReserves_def
      setReservesViaOrderedBalances_def setReservesViaMatchingArray_def isEqual_def own_keys_def
      js_idx_def getBalance_def js_get_def ETHER_def Let_def discovered_def is_liquid_def)

end
